theory Spec2Isabelle
  imports Complex_Main
begin

section \<open>The verifier of tinygrad's micro-operation graphs (tinygrad/spec.py)\<close>

text \<open>
  The file \<^verbatim>\<open>tinygrad/spec.py\<close> holds tables of rules, each a pattern (\<^verbatim>\<open>UPat\<close>) with a
  predicate, grouped in rule sets (\<^verbatim>\<open>PatternMatcher\<close>), and the driver \<^verbatim>\<open>type_verify\<close> that runs
  a list of nodes through rule sets. The tables, the helper predicates and the driver are
  embedded here from that file. The modules \<^verbatim>\<open>tinygrad.ops\<close>, \<^verbatim>\<open>tinygrad.dtype\<close>
  and \<^verbatim>\<open>tinygrad.helpers\<close> that the file imports are not part of the sources at hand: what
  is taken from them is marked as such where it is defined.
\<close>

subsection \<open>Operators\<close>

text \<open>
  Modelled from the spec: the enumeration \<^verbatim>\<open>Ops\<close> of \<^verbatim>\<open>tinygrad.ops\<close>, a closed set of
  operator kinds. It holds every operator that \<^verbatim>\<open>spec.py\<close> names, the movement operators
  (reshape, permute, expand and the stride tricks) and the arithmetic operators of the ALU
  group. The operator \<^verbatim>\<open>Ops.MAX\<close> is written \<open>MAX_op\<close> and \<^verbatim>\<open>Ops.CONST\<close> \<open>CONST_op\<close>.
\<close>

datatype Ops =
    SINK | CONTIGUOUS | CONTIGUOUS_BACKWARD | DETACH | KERNEL | UNIQUE
  | COPY | BUFFER_VIEW
  | RESHAPE | PERMUTE | EXPAND | PAD | SHRINK | FLIP
  | UNROLL | CONTRACT | VIEW | DEFINE_GLOBAL | BUFFER | DEFINE_VAR | DEFINE_LOCAL | DEFINE_ACC
  | VALID | SPECIAL | NOOP
  | REDUCE_AXIS
  | GEP | VECTORIZE
  | CAST | BITCAST | EXP2 | LOG2 | SIN | SQRT | RECIP | NEG
  | LOAD | STORE
  | INDEX
  | WMMA
  | ADD | MUL | IDIV | MAX_op | MOD | CMPLT | CMPNE | XOR | SHL | SHR | OR | AND | THREEFRY
  | SUB | FDIV | POW
  | WHERE | MULACC
  | ASSIGN | BIND
  | BARRIER | RANGE | IF | ENDRANGE | ENDIF
  | CONST_op
  | DEVICE | CUSTOM | CUSTOMI | FUSE

text \<open>
  Modelled from the spec: the operator groups \<^verbatim>\<open>GroupOp.All\<close> (every operator),
  \<^verbatim>\<open>GroupOp.ALU\<close> (the unary, binary and ternary arithmetic operators),
  \<^verbatim>\<open>GroupOp.Movement\<close> and \<^verbatim>\<open>GroupOp.Buffer\<close> of \<^verbatim>\<open>tinygrad.ops\<close>.
\<close>

definition GroupOp_All :: "Ops list" where
  "GroupOp_All =
    [SINK, CONTIGUOUS, CONTIGUOUS_BACKWARD, DETACH, KERNEL, UNIQUE,
     COPY, BUFFER_VIEW,
     RESHAPE, PERMUTE, EXPAND, PAD, SHRINK, FLIP,
     UNROLL, CONTRACT, VIEW, DEFINE_GLOBAL, BUFFER, DEFINE_VAR, DEFINE_LOCAL, DEFINE_ACC,
     VALID, SPECIAL, NOOP, REDUCE_AXIS, GEP, VECTORIZE,
     CAST, BITCAST, EXP2, LOG2, SIN, SQRT, RECIP, NEG, LOAD, STORE, INDEX, WMMA,
     ADD, MUL, IDIV, MAX_op, MOD, CMPLT, CMPNE, XOR, SHL, SHR, OR, AND, THREEFRY,
     SUB, FDIV, POW, WHERE, MULACC, ASSIGN, BIND,
     BARRIER, RANGE, IF, ENDRANGE, ENDIF, CONST_op,
     DEVICE, CUSTOM, CUSTOMI, FUSE]"

definition GroupOp_ALU :: "Ops list" where
  "GroupOp_ALU =
    [EXP2, LOG2, SIN, SQRT, RECIP, NEG,
     ADD, MUL, IDIV, MAX_op, MOD, CMPLT, CMPNE, XOR, SHL, SHR, OR, AND, THREEFRY,
     SUB, FDIV, POW,
     WHERE, MULACC]"

definition GroupOp_Movement :: "Ops list" where
  "GroupOp_Movement = [RESHAPE, EXPAND, PERMUTE, PAD, SHRINK, FLIP]"

definition GroupOp_Buffer :: "Ops list" where
  "GroupOp_Buffer = [LOAD, STORE, VALID, CONST_op, DEFINE_VAR]"

text \<open>The difference of an operator group and a set of operators, \<^verbatim>\<open>GroupOp.All-{...}\<close>.\<close>

definition ops_minus :: "Ops list \<Rightarrow> Ops list \<Rightarrow> Ops list" where
  "ops_minus xs ys = filter (\<lambda>x. x \<notin> set ys) xs"

subsection \<open>Value types\<close>

text \<open>
  Modelled from the spec: the value types of \<^verbatim>\<open>tinygrad.dtype\<close>. A plain \<^verbatim>\<open>DType\<close> is an
  element type with a lane count; a \<^verbatim>\<open>PtrDType\<close> carries its base type, the local flag, a
  lane count and the declared element count (-1 when unbounded); an \<^verbatim>\<open>ImageDType\<close> is a
  pointer type with an image shape. Two value types are equal when they are built alike.
\<close>

datatype ElemT =
    Void | Bool | Int8 | Int16 | Int32 | Int64 | UInt8 | UInt16 | UInt32 | UInt64
  | Float16 | BFloat16 | Float32 | Float64

datatype DType =
    DType (elem: ElemT) (lanes: nat)
  | PtrDType (ptr_base: DType) (ptr_local: bool) (ptr_v: nat) (ptr_size: int)
  | ImageDType (img_name: string) (ptr_base: DType) (ptr_local: bool) (ptr_v: nat)
      (ptr_size: int) (img_shape: "int list")

definition dtypes_void :: DType where "dtypes_void = DType Void 1"
definition dtypes_bool :: DType where "dtypes_bool = DType Bool 1"
definition dtypes_int :: DType where "dtypes_int = DType Int32 1"
definition dtypes_int64 :: DType where "dtypes_int64 = DType Int64 1"
definition dtypes_uint :: DType where "dtypes_uint = DType UInt32 1"
definition dtypes_uint8 :: DType where "dtypes_uint8 = DType UInt8 1"
definition dtypes_float :: DType where "dtypes_float = DType Float32 1"

text \<open>
  \<^verbatim>\<open>isinstance(d, ImageDType)\<close> and \<^verbatim>\<open>isinstance(d, PtrDType)\<close> on these value types: an
  image type is a pointer type.
\<close>

fun isinstance_ImageDType :: "DType \<Rightarrow> bool" where
  "isinstance_ImageDType (ImageDType n b l v s sh) = True"
| "isinstance_ImageDType _ = False"

fun isinstance_PtrDType :: "DType \<Rightarrow> bool" where
  "isinstance_PtrDType (DType e c) = False"
| "isinstance_PtrDType _ = True"

text \<open>\<^verbatim>\<open>isinstance(d, (DType, ImageDType))\<close>: every value type is a \<^verbatim>\<open>DType\<close>.\<close>

definition isinstance_DType :: "DType \<Rightarrow> bool" where
  "isinstance_DType d = True"

text \<open>
  Modelled from the spec: the properties \<^verbatim>\<open>base\<close> and \<^verbatim>\<open>count\<close> (the lane count) of a value
  type, its method \<^verbatim>\<open>scalar\<close> (the lane-stripped type), and the tests \<^verbatim>\<open>dtypes.is_int\<close>,
  \<^verbatim>\<open>dtypes.is_float\<close> and \<^verbatim>\<open>dtypes.is_unsigned\<close> of \<^verbatim>\<open>tinygrad.dtype\<close>.
\<close>

fun base :: "DType \<Rightarrow> DType" where
  "base (DType e c) = DType e c"
| "base (PtrDType b l v s) = b"
| "base (ImageDType n b l v s sh) = b"

fun count :: "DType \<Rightarrow> nat" where
  "count (DType e c) = c"
| "count (PtrDType b l v s) = count b"
| "count (ImageDType n b l v s sh) = count b"

fun scalar :: "DType \<Rightarrow> DType" where
  "scalar (DType e c) = DType e 1"
| "scalar (PtrDType b l v s) = PtrDType b l 1 s"
| "scalar (ImageDType n b l v s sh) = ImageDType n b l 1 s sh"

definition dtypes_ints :: "ElemT list" where
  "dtypes_ints = [Int8, Int16, Int32, Int64, UInt8, UInt16, UInt32, UInt64]"

definition dtypes_floats :: "ElemT list" where
  "dtypes_floats = [Float16, BFloat16, Float32, Float64]"

fun is_int :: "DType \<Rightarrow> bool" where
  "is_int (DType e c) = (e \<in> set dtypes_ints)"
| "is_int _ = False"

fun is_float :: "DType \<Rightarrow> bool" where
  "is_float (DType e c) = (e \<in> set dtypes_floats)"
| "is_float _ = False"

definition dtypes_uints :: "ElemT list" where
  "dtypes_uints = [UInt8, UInt16, UInt32, UInt64]"

fun is_unsigned :: "DType \<Rightarrow> bool" where
  "is_unsigned (DType e c) = (e \<in> set dtypes_uints)"
| "is_unsigned _ = False"

subsection \<open>Nodes and their arguments\<close>

text \<open>
  Modelled from the spec: the class \<^verbatim>\<open>UOp\<close> of \<^verbatim>\<open>tinygrad.ops\<close>. A node has an operator, a
  value type, its sources and an argument. Two nodes built alike are the same node. The
  facts that \<^verbatim>\<open>tinygrad.ops\<close> derives from a node and that the rules read are fields of the node
  here: its
  shape tracker \<open>st\<close> (none for a node without a shape), of which the rules read the shape
  and the total element count, and the value range \<open>vmin\<close>, \<open>vmax\<close>. An argument is
  absent, an integer, a boolean, a float, a string, a tuple, an operator, a node, or the
  descriptor of a kernel, which holds the root \<open>ast\<close> of the kernel's graph.
\<close>

datatype ShapeTracker = ShapeTracker (st_shape: "int list") (st_size: int)

datatype UOp = UOp (op: Ops) (dtype: DType) (src: "UOp list") (arg: Arg)
    (st: "ShapeTracker option") (vmin: int) (vmax: int)
and Arg =
    ANone | AInt int | ABool bool | AFloat real | AStr string | ATuple "Arg list"
  | AOps Ops | AUOp UOp | AKernel (ast: UOp)

text \<open>\<^verbatim>\<open>isinstance(a, int)\<close> holds of a boolean too, \<^verbatim>\<open>bool\<close> being a subclass of \<^verbatim>\<open>int\<close>.\<close>

fun isinstance_int :: "Arg \<Rightarrow> bool" where
  "isinstance_int (AInt i) = True"
| "isinstance_int (ABool b) = True"
| "isinstance_int _ = False"

fun isinstance_str :: "Arg \<Rightarrow> bool" where
  "isinstance_str (AStr s) = True"
| "isinstance_str _ = False"

fun isinstance_tuple :: "Arg \<Rightarrow> bool" where
  "isinstance_tuple (ATuple xs) = True"
| "isinstance_tuple _ = False"

fun isinstance_UOp :: "Arg \<Rightarrow> bool" where
  "isinstance_UOp (AUOp u) = True"
| "isinstance_UOp _ = False"

subsection \<open>Errors and printed lines\<close>

text \<open>
  What the code raises: the two assertions of \<^verbatim>\<open>validate_kernel\<close>, the error of
  \<^verbatim>\<open>type_verify\<close> with the position, operator, value type, number of sources, operators of the
  sources and argument of the failing node, and the errors of Python itself on a node of
  the wrong form. What it prints: the line of \<^verbatim>\<open>validate_index\<close> with the range, the bound
  and the offset expression it renders, and the dump of the node list by \<^verbatim>\<open>print_uops\<close>.
\<close>

datatype error =
    MustEndWith Arg
  | SinkMustEndWithStore UOp
  | VerificationFailed nat Ops DType nat "Ops list" Arg
  | AssertionError
  | TypeError
  | IndexError
  | AttributeError

datatype printed =
    OutOfBoundsAccess int int int UOp
  | PrintUOps "UOp list"

type_synonym verdict = "error + bool option"

subsection \<open>The pattern matcher\<close>

text \<open>
  Modelled from the spec: \<^verbatim>\<open>UPat\<close> and \<^verbatim>\<open>PatternMatcher\<close> of \<^verbatim>\<open>tinygrad.ops\<close>. A pattern
  constrains the operator of a node (one of a list, or any), its value type (one of a list,
  exactly, or any), its sources and binds the node to a name. The sources are unconstrained
  (\<open>SrcNone\<close>), or a tuple of patterns for the sources in order (\<open>SrcTuple\<close>: as many
  sources as patterns, or at least as many when \<^verbatim>\<open>allow_any_len\<close> is set), or one pattern
  for every source, however many (\<open>SrcRepeat\<close>). The fields are those of the constructor
  \<^verbatim>\<open>UPat(op, dtype, src, name, allow_any_len)\<close>; no pattern of the tables below constrains the
  argument. A match yields the store of the bound names.
\<close>

datatype UPat =
  UPat (p_op: "Ops list option") (p_dtype: "DType list option") (p_src: SrcPat)
    (p_name: "string option") (allow_any_len: bool)
and SrcPat = SrcNone | SrcTuple "UPat list" | SrcRepeat UPat

type_synonym store = "(string \<times> UOp) list"

text \<open>\<^verbatim>\<open>store.setdefault(name, uop) is not uop\<close>: a name bound to another node fails the match.\<close>

definition bind_name :: "string option \<Rightarrow> UOp \<Rightarrow> store \<Rightarrow> store option" where
  "bind_name n u s =
    (case n of
       None \<Rightarrow> Some s
     | Some k \<Rightarrow>
        (case map_of s k of
           None \<Rightarrow> Some (s @ [(k, u)])
         | Some v \<Rightarrow> if v = u then Some s else None))"

text \<open>The checks of a pattern on the node itself: operator, name, value type.\<close>

definition match_node ::
  "Ops list option \<Rightarrow> DType list option \<Rightarrow> string option \<Rightarrow> UOp \<Rightarrow> store \<Rightarrow> store option" where
  "match_node pop pdt pname u s =
    (if (case pop of None \<Rightarrow> False | Some ops \<Rightarrow> op u \<notin> set ops) then None
     else case bind_name pname u s of
       None \<Rightarrow> None
     | Some s' \<Rightarrow>
        if (case pdt of None \<Rightarrow> False | Some ds \<Rightarrow> dtype u \<notin> set ds) then None
        else Some s')"

fun match :: "UPat \<Rightarrow> UOp \<Rightarrow> store \<Rightarrow> store option"
and match_tuple :: "UPat list \<Rightarrow> UOp list \<Rightarrow> store \<Rightarrow> store option"
and match_repeat :: "UPat \<Rightarrow> UOp list \<Rightarrow> store \<Rightarrow> store option" where
  "match (UPat pop pdt SrcNone pname anylen) u s = match_node pop pdt pname u s"
| "match (UPat pop pdt (SrcTuple ps) pname anylen) u s =
    (case match_node pop pdt pname u s of
       None \<Rightarrow> None
     | Some s' \<Rightarrow>
        if (if anylen then length (src u) < length ps else length (src u) \<noteq> length ps)
        then None
        else match_tuple ps (src u) s')"
| "match (UPat pop pdt (SrcRepeat q) pname anylen) u s =
    (case match_node pop pdt pname u s of
       None \<Rightarrow> None
     | Some s' \<Rightarrow> match_repeat q (src u) s')"
| "match_tuple [] us s = Some s"
| "match_tuple (p # ps) [] s = Some s"
| "match_tuple (p # ps) (u # us) s =
    (case match p u s of None \<Rightarrow> None | Some s' \<Rightarrow> match_tuple ps us s')"
| "match_repeat q [] s = Some s"
| "match_repeat q (u # us) s =
    (case match q u s of None \<Rightarrow> None | Some s' \<Rightarrow> match_repeat q us s')"

text \<open>
  A rule is a pattern with a predicate. The predicate is called with the bound names as
  keyword arguments and returns \<^verbatim>\<open>True\<close> (accept), \<^verbatim>\<open>False\<close> (reject) or \<^verbatim>\<open>None\<close> (abstain),
  unless it raises; it may print. \<open>fxn0\<close> to \<open>fxn3\<close> are the Python functions of no, one, two
  and three parameters: a call whose keywords are not the parameters is a \<^verbatim>\<open>TypeError\<close>.
\<close>

type_synonym fxn = "store \<Rightarrow> verdict \<times> printed list"
type_synonym PatternMatcher = "(UPat \<times> fxn) list"

definition kwargs_ok :: "string list \<Rightarrow> store \<Rightarrow> bool" where
  "kwargs_ok ps s = (set (map fst s) = set ps)"

definition fxn0 :: "verdict \<Rightarrow> fxn" where
  "fxn0 r s = (if kwargs_ok [] s then (r, []) else (Inl TypeError, []))"

definition fxn1 :: "string \<Rightarrow> (UOp \<Rightarrow> verdict) \<Rightarrow> fxn" where
  "fxn1 a f s =
    (case map_of s a of
       Some x \<Rightarrow> if kwargs_ok [a] s then (f x, []) else (Inl TypeError, [])
     | None \<Rightarrow> (Inl TypeError, []))"

definition fxn2 :: "string \<Rightarrow> string \<Rightarrow> (UOp \<Rightarrow> UOp \<Rightarrow> verdict) \<Rightarrow> fxn" where
  "fxn2 a b f s =
    (case (map_of s a, map_of s b) of
       (Some x, Some y) \<Rightarrow> if kwargs_ok [a, b] s then (f x y, []) else (Inl TypeError, [])
     | _ \<Rightarrow> (Inl TypeError, []))"

definition fxn3 :: "string \<Rightarrow> string \<Rightarrow> string \<Rightarrow> (UOp \<Rightarrow> UOp \<Rightarrow> UOp \<Rightarrow> verdict) \<Rightarrow> fxn" where
  "fxn3 a b c f s =
    (case (map_of s a, map_of s b, map_of s c) of
       (Some x, Some y, Some z) \<Rightarrow>
         if kwargs_ok [a, b, c] s then (f x y z, []) else (Inl TypeError, [])
     | _ \<Rightarrow> (Inl TypeError, []))"

text \<open>The results of a predicate: a Python boolean, and \<^verbatim>\<open>None\<close>.\<close>

definition ret :: "bool \<Rightarrow> verdict" where
  "ret b = Inr (Some b)"

definition ret_None :: verdict where
  "ret_None = Inr None"

text \<open>
  \<^verbatim>\<open>PatternMatcher.rewrite\<close>: the rules are tried in order, and the first result of a
  predicate that is not \<^verbatim>\<open>None\<close> is the result of the rule set; when no rule matches or
  every predicate that was called returned \<^verbatim>\<open>None\<close>, the result is \<^verbatim>\<open>None\<close>. An error raised by
  a predicate ends the rewrite. The sum of two rule sets is the rules of the first followed
  by the rules of the second, written \<open>@\<close>.
\<close>

fun rewrite :: "PatternMatcher \<Rightarrow> UOp \<Rightarrow> verdict \<times> printed list" where
  "rewrite [] u = (Inr None, [])"
| "rewrite ((p, f) # rs) u =
    (case match p u [] of
       None \<Rightarrow> rewrite rs u
     | Some s \<Rightarrow>
        (case f s of
           (Inr None, out) \<Rightarrow> (case rewrite rs u of (r, out') \<Rightarrow> (r, out @ out'))
         | (r, out) \<Rightarrow> (r, out)))"

subsection \<open>The rules of buffers, \<^verbatim>\<open>buffer_spec\<close>\<close>

text \<open>The patterns \<^verbatim>\<open>UPat(op)\<close> of one operator and \<^verbatim>\<open>UPat((op, ...))\<close> of several, with nothing else.\<close>

definition UPat_op :: "Ops list \<Rightarrow> UPat" where
  "UPat_op ops = UPat (Some ops) None SrcNone None False"

definition buffer_spec :: PatternMatcher where
  "buffer_spec =
    [(UPat (Some [UNIQUE]) (Some [dtypes_void]) (SrcTuple []) None False,
        fxn0 (ret True)),
     (UPat (Some [DEVICE]) (Some [dtypes_void]) (SrcTuple []) (Some ''device'') False,
        fxn1 ''device'' (\<lambda>device. ret (isinstance_str (arg device)))),
     (UPat (Some [BUFFER]) None (SrcTuple [UPat_op [DEVICE], UPat_op [UNIQUE]])
          (Some ''buf'') False,
        fxn1 ''buf'' (\<lambda>buf. ret (isinstance_int (arg buf) \<and> isinstance_DType (dtype buf)))),
     (UPat (Some [BUFFER_VIEW]) None (SrcTuple [UPat_op [BUFFER]]) (Some ''buf_view'') False,
        fxn1 ''buf_view'' (\<lambda>buf_view. ret
          (case arg buf_view of
             ATuple xs \<Rightarrow>
               length xs = 2 \<and> list_all (\<lambda>a. isinstance_int a \<or> isinstance_UOp a) xs
           | _ \<Rightarrow> False)))]"

subsection \<open>The rules of assignments and kernels, \<^verbatim>\<open>assign_spec\<close>\<close>

text \<open>
  \<^verbatim>\<open>validate_kernel\<close> reads the root of the descriptor that the kernel carries as its
  argument; an argument that is no descriptor has no \<^verbatim>\<open>ast\<close> (\<^verbatim>\<open>AttributeError\<close>). Either
  assertion that fails is raised, with the descriptor or its root in the message.
\<close>

definition validate_kernel :: "UOp \<Rightarrow> verdict" where
  "validate_kernel k =
    (case arg k of
       AKernel a \<Rightarrow>
         if op a \<notin> {COPY, BUFFER_VIEW, SINK} then Inl (MustEndWith (arg k))
         else if op a = SINK \<and> \<not> list_all (\<lambda>s. op s = STORE) (src a)
           then Inl (SinkMustEndWithStore a)
         else ret True
     | _ \<Rightarrow> Inl AttributeError)"

text \<open>
  Modelled from the spec: the property \<^verbatim>\<open>UOp.base\<close> of \<^verbatim>\<open>tinygrad.ops\<close>, the node that a node
  resolves to when views and movement operators are looked through.
\<close>

fun uop_base :: "UOp \<Rightarrow> error + UOp" where
  "uop_base (UOp o' d ss a t mn mx) =
    (if (o' = VIEW \<and> ss \<noteq> []) \<or> o' \<in> set GroupOp_Movement
     then (case ss of [] \<Rightarrow> Inl IndexError | s # rest \<Rightarrow> uop_base s)
     else Inr (UOp o' d ss a t mn mx))"

definition assign_spec :: PatternMatcher where
  "assign_spec =
    [(UPat (Some [KERNEL]) None (SrcRepeat (UPat_op [BUFFER, BUFFER_VIEW, ASSIGN]))
          (Some ''k'') False,
        fxn1 ''k'' validate_kernel),
     (UPat (Some [ASSIGN]) None SrcNone (Some ''x'') False,
        fxn1 ''x'' (\<lambda>x.
          case src x of
            [] \<Rightarrow> Inl IndexError
          | s0 # rest \<Rightarrow>
             (case uop_base s0 of
                Inl e \<Rightarrow> Inl e
              | Inr b \<Rightarrow> ret (op b \<in> {BUFFER, BUFFER_VIEW} \<and>
                  (length (src x) = 2 \<or> list_all (\<lambda>s. op s = ASSIGN) (drop 2 (src x)))))))]"

subsection \<open>The rules of the schedule graph, \<^verbatim>\<open>sched_spec\<close>\<close>

definition sched_spec :: PatternMatcher where
  "sched_spec = buffer_spec @ assign_spec @
    [(UPat_op (ops_minus GroupOp_All [SINK]), fxn0 (ret False))]"


subsection \<open>Helpers of the Python side\<close>

text \<open>
  Modelled from the spec: \<^verbatim>\<open>all_same\<close>, \<^verbatim>\<open>dedup\<close> and \<^verbatim>\<open>prod\<close> of \<^verbatim>\<open>tinygrad.helpers\<close>:
  whether the items of a list all equal the first, the list without its repeated items
  (the first occurrence of each is kept, in order), and the product of a list of integers.
\<close>

definition all_same :: "'a list \<Rightarrow> bool" where
  "all_same items = (case items of [] \<Rightarrow> True | x # rest \<Rightarrow> list_all (\<lambda>y. y = x) items)"

definition dedup :: "'a list \<Rightarrow> 'a list" where
  "dedup xs = foldl (\<lambda>acc x. if x \<in> set acc then acc else acc @ [x]) [] xs"

text \<open>
  Python's \<^verbatim>\<open>a[i]\<close> on an argument: an item of a tuple or a character of a string
  (\<^verbatim>\<open>IndexError\<close> out of range), a \<^verbatim>\<open>TypeError\<close> on an argument that has no items.
\<close>

fun getitem :: "Arg \<Rightarrow> nat \<Rightarrow> error + Arg" where
  "getitem (ATuple xs) i = (if i < length xs then Inr (xs ! i) else Inl IndexError)"
| "getitem (AStr cs) i = (if i < length cs then Inr (AStr [cs ! i]) else Inl IndexError)"
| "getitem _ i = Inl TypeError"

text \<open>
  \<^verbatim>\<open>prod(y[1] for y in x.arg)\<close>: the product of the second components of the items of the
  argument, a tuple of pairs of an axis and a count. A component that is no integer is
  modelled as a \<^verbatim>\<open>TypeError\<close>, as is an argument that cannot be iterated.
\<close>

fun prod_items :: "Arg list \<Rightarrow> error + int" where
  "prod_items [] = Inr 1"
| "prod_items (y # ys) =
    (case getitem y 1 of
       Inl e \<Rightarrow> Inl e
     | Inr (AInt i) \<Rightarrow> (case prod_items ys of Inl e \<Rightarrow> Inl e | Inr p \<Rightarrow> Inr (i * p))
     | Inr (ABool b) \<Rightarrow>
        (case prod_items ys of Inl e \<Rightarrow> Inl e | Inr p \<Rightarrow> Inr ((if b then 1 else 0) * p))
     | Inr _ \<Rightarrow> Inl TypeError)"

fun prod_arg :: "Arg \<Rightarrow> error + int" where
  "prod_arg (ATuple ys) = prod_items ys"
| "prod_arg (AStr cs) = (if cs = [] then Inr 1 else Inl IndexError)"
| "prod_arg _ = Inl TypeError"

text \<open>
  Modelled from the spec: the method \<^verbatim>\<open>vec\<close> of a value type (the type with that many lanes,
  of a type of one lane; \<^verbatim>\<open>void\<close> has no lanes) and the constant coercion
  \<^verbatim>\<open>dtypes.as_const\<close> of \<^verbatim>\<open>tinygrad.dtype\<close>, of which the rule of constants reads the Python
  type of the result: an integer for an integer type, a float for a floating type, a
  boolean otherwise, a tuple (of as many items as the type has lanes) for a tuple.
\<close>

fun vec :: "DType \<Rightarrow> nat \<Rightarrow> error + DType" where
  "vec (DType e c) n =
    (if c \<noteq> 1 then Inl AssertionError
     else if n = 1 \<or> e = Void then Inr (DType e c) else Inr (DType e n))"
| "vec (PtrDType b l v s) n = (if v \<noteq> 1 then Inl AssertionError else Inr (PtrDType b l n s))"
| "vec (ImageDType nm b l v s sh) n =
    (if v \<noteq> 1 then Inl AssertionError else Inr (ImageDType nm b l n s sh))"

datatype pytype = TNone | TInt | TBool | TFloat | TStr | TTuple | TOps | TUOp | TKernel

fun type_of :: "Arg \<Rightarrow> pytype" where
  "type_of ANone = TNone"
| "type_of (AInt i) = TInt"
| "type_of (ABool b) = TBool"
| "type_of (AFloat f) = TFloat"
| "type_of (AStr s) = TStr"
| "type_of (ATuple xs) = TTuple"
| "type_of (AOps x) = TOps"
| "type_of (AUOp u) = TUOp"
| "type_of (AKernel a) = TKernel"

definition is_number :: "Arg \<Rightarrow> bool" where
  "is_number a = (type_of a \<in> {TInt, TBool, TFloat})"

fun first_error :: "(error + 'a) list \<Rightarrow> error option" where
  "first_error [] = None"
| "first_error (Inl e # rs) = Some e"
| "first_error (Inr x # rs) = first_error rs"

fun as_const_type :: "Arg \<Rightarrow> DType \<Rightarrow> error + pytype" where
  "as_const_type (ATuple vs) d =
    (if length vs \<noteq> count d then Inl AssertionError
     else (case first_error (map (\<lambda>v. as_const_type v d) vs) of
             Some e \<Rightarrow> Inl e
           | None \<Rightarrow> Inr TTuple))"
| "as_const_type v d =
    (if is_int d then (if is_number v then Inr TInt else Inl TypeError)
     else if is_float d then (if is_number v then Inr TFloat else Inl TypeError)
     else Inr TBool)"

subsection \<open>The bounds check of an index, \<^verbatim>\<open>validate_index\<close>\<close>

text \<open>
  The environment of the process: the variable \<^verbatim>\<open>IGNORE_OOB\<close> as \<^verbatim>\<open>getenv\<close> reads it (an
  integer, 0 when unset) and the level \<^verbatim>\<open>DEBUG\<close>.
\<close>

record env =
  IGNORE_OOB :: int
  DEBUG :: int

text \<open>
  Modelled from the spec: the property \<^verbatim>\<open>UOp.toposort\<close> of \<^verbatim>\<open>tinygrad.ops\<close>, the nodes that a
  node depends on and the node itself, each once, sources before the nodes that use them.
\<close>

fun toposort :: "UOp \<Rightarrow> UOp list" where
  "toposort (UOp o' d ss a t mn mx) =
    dedup (concat (map toposort ss) @ [UOp o' d ss a t mn mx])"

text \<open>
  \<^verbatim>\<open>any(not isinstance(y, int) for y in x.arg[1:])\<close>: the slice is of a tuple or of a string,
  whose characters are no integers; an argument that cannot be sliced is a \<^verbatim>\<open>TypeError\<close>.
\<close>

fun non_int_after_first :: "Arg \<Rightarrow> error + bool" where
  "non_int_after_first (ATuple ys) = Inr (list_ex (\<lambda>y. \<not> isinstance_int y) (tl ys))"
| "non_int_after_first (AStr cs) = Inr (tl cs \<noteq> [])"
| "non_int_after_first _ = Inl TypeError"

text \<open>
  The scan of \<^verbatim>\<open>validate_index\<close> over the nodes in order, which stops at the first node that
  is a \<^verbatim>\<open>DEFINE_VAR\<close>, a \<^verbatim>\<open>BITCAST\<close>, or a \<^verbatim>\<open>SPECIAL\<close> with a component after the first that
  is no integer.
\<close>

fun any_unbounded :: "UOp list \<Rightarrow> error + bool" where
  "any_unbounded [] = Inr False"
| "any_unbounded (x # xs) =
    (if op x \<in> {DEFINE_VAR, BITCAST} then Inr True
     else if op x = SPECIAL then
       (case non_int_after_first (arg x) of
          Inl e \<Rightarrow> Inl e
        | Inr True \<Rightarrow> Inr True
        | Inr False \<Rightarrow> any_unbounded xs)
     else any_unbounded xs)"

text \<open>The field \<^verbatim>\<open>size\<close> of a pointer type; a plain type has none (\<^verbatim>\<open>AttributeError\<close>).\<close>

fun dtype_size :: "DType \<Rightarrow> error + int" where
  "dtype_size (DType e c) = Inl AttributeError"
| "dtype_size (PtrDType b l v s) = Inr s"
| "dtype_size (ImageDType nm b l v s sh) = Inr s"

definition validate_index :: "env \<Rightarrow> UOp \<Rightarrow> UOp option \<Rightarrow> verdict \<times> printed list" where
  "validate_index e idx mask' =
    (if IGNORE_OOB e \<noteq> 0 then (ret True, [])
     else if mask' = None \<and> \<not> isinstance_ImageDType (dtype idx) then
       (case any_unbounded (toposort idx) of
          Inl err \<Rightarrow> (Inl err, [])
        | Inr True \<Rightarrow> (ret True, [])
        | Inr False \<Rightarrow>
           (case src idx of
              b # off # rest \<Rightarrow>
               (case dtype_size (dtype b) of
                  Inl err \<Rightarrow> (Inl err, [])
                | Inr sz \<Rightarrow>
                   if sz \<noteq> -1 \<and> (vmin off < 0 \<or> vmax off \<ge> sz)
                   then (ret False,
                         if DEBUG e \<ge> 1 then [OutOfBoundsAccess (vmin off) (vmax off) sz off]
                         else [])
                   else (ret True, []))
            | _ \<Rightarrow> (Inl IndexError, [])))
     else (ret True, []))"

text \<open>
  \<^verbatim>\<open>validate_index\<close> as the predicate of a rule: the parameter \<^verbatim>\<open>idx\<close>, and the parameter
  \<^verbatim>\<open>mask\<close> that is \<^verbatim>\<open>None\<close> when the pattern binds no mask.
\<close>

definition fxn_opt :: "string \<Rightarrow> string \<Rightarrow> (UOp \<Rightarrow> UOp option \<Rightarrow> verdict \<times> printed list) \<Rightarrow> fxn" where
  "fxn_opt a b f s =
    (case map_of s a of
       Some x \<Rightarrow> if set (map fst s) \<subseteq> {a, b} then f x (map_of s b) else (Inl TypeError, [])
     | None \<Rightarrow> (Inl TypeError, []))"

subsection \<open>The rules of the rendered graph, \<^verbatim>\<open>spec\<close>\<close>

text \<open>The patterns \<^verbatim>\<open>UPat()\<close>, \<^verbatim>\<open>UPat.var(name)\<close> and \<^verbatim>\<open>UPat(dtype=d)\<close>.\<close>

definition UPat_any :: UPat where
  "UPat_any = UPat None None SrcNone None False"

definition UPat_var :: "string \<Rightarrow> UPat" where
  "UPat_var n = UPat None None SrcNone (Some n) False"

definition UPat_dtype :: "DType \<Rightarrow> UPat" where
  "UPat_dtype d = UPat None (Some [d]) SrcNone None False"

text \<open>The predicates of the rules that are longer than a line.\<close>

definition define_var_rule :: "UOp \<Rightarrow> verdict" where
  "define_var_rule x =
    (case getitem (arg x) 1 of
       Inl e \<Rightarrow> Inl e
     | Inr a1 \<Rightarrow>
        if \<not> isinstance_int a1 then ret False
        else (case getitem (arg x) 2 of Inl e \<Rightarrow> Inl e | Inr a2 \<Rightarrow> ret (isinstance_int a2)))"

definition const_rule :: "UOp \<Rightarrow> verdict" where
  "const_rule x =
    (case as_const_type (arg x) (dtype x) of
       Inl e \<Rightarrow> Inl e
     | Inr t \<Rightarrow> ret (type_of (arg x) = t))"

definition contract_rule :: "UOp \<Rightarrow> verdict" where
  "contract_rule x =
    (case prod_arg (arg x) of Inl e \<Rightarrow> Inl e | Inr p \<Rightarrow> ret (int (count (dtype x)) = p))"

definition unroll_rule :: "UOp \<Rightarrow> verdict" where
  "unroll_rule x =
    (case src x of
       [] \<Rightarrow> Inl IndexError
     | s0 # rest \<Rightarrow>
        (case prod_arg (arg x) of
           Inl e \<Rightarrow> Inl e
         | Inr p \<Rightarrow> ret (int (count (dtype s0)) = p)))"

definition reduce_axis_rule :: "UOp \<Rightarrow> verdict" where
  "reduce_axis_rule x =
    ret (case arg x of
           ATuple ys \<Rightarrow> length ys \<ge> 2 \<and> hd ys \<in> {AOps ADD, AOps MUL, AOps MAX_op}
         | _ \<Rightarrow> False)"

fun all_vec :: "DType \<Rightarrow> nat \<Rightarrow> UOp list \<Rightarrow> verdict" where
  "all_vec d n [] = ret True"
| "all_vec d n (y # ys) =
    (case vec (dtype y) n of
       Inl e \<Rightarrow> Inl e
     | Inr dv \<Rightarrow> if d = dv then all_vec d n ys else ret False)"

definition vectorize_rule :: "UOp \<Rightarrow> verdict" where
  "vectorize_rule x =
    (if length (src x) > 1 \<and> length (src x) = count (dtype x)
     then all_vec (dtype x) (length (src x)) (src x)
     else ret False)"

definition spec :: "env \<Rightarrow> PatternMatcher" where
  "spec e =
    [(UPat (Some [DEFINE_GLOBAL]) None SrcNone (Some ''x'') False,
        fxn1 ''x'' (\<lambda>x. ret ((isinstance_PtrDType (dtype x) \<or> isinstance_ImageDType (dtype x))
                               \<and> \<not> ptr_local (dtype x)))),
     (UPat (Some [DEFINE_LOCAL]) None SrcNone (Some ''x'') False,
        fxn1 ''x'' (\<lambda>x. ret (isinstance_PtrDType (dtype x) \<and> ptr_local (dtype x)))),
     (UPat (Some [DEFINE_ACC]) None (SrcTuple [UPat_var ''c'']) (Some ''x'') True,
        fxn2 ''x'' ''c'' (\<lambda>x c. ret (list_all (\<lambda>y. op y = RANGE) (drop 1 (src x))
                                       \<and> dtype c = dtype x))),
     (UPat (Some [DEFINE_VAR]) None SrcNone (Some ''x'') False,
        fxn1 ''x'' define_var_rule),

     (UPat (Some [RANGE]) None (SrcTuple [UPat_var ''x'', UPat_var ''y'']) (Some ''rng'') False,
        fxn3 ''rng'' ''x'' ''y'' (\<lambda>rng x y. ret (dtype rng = dtype x \<and> dtype x = dtype y
                                                    \<and> isinstance_int (arg rng)))),
     (UPat (Some [SPECIAL]) None (SrcTuple []) None False, fxn0 (ret True)),

     (UPat (Some [VIEW]) (Some [dtypes_void]) (SrcTuple []) None False, fxn0 (ret True)),
     (UPat (Some [VIEW]) None (SrcTuple [UPat_var ''src'']) (Some ''x'') False,
        fxn2 ''x'' ''src'' (\<lambda>x s. ret (op s \<noteq> STORE \<and> base (dtype x) = base (dtype s)))),

     (UPat (Some [VALID]) (Some [dtypes_bool]) (SrcTuple [UPat_op [VIEW]]) None False,
        fxn0 (ret True)),
     (UPat (Some [CONST_op]) None SrcNone (Some ''x'') False, fxn1 ''x'' const_rule),

     (UPat (Some [LOAD]) None
          (SrcTuple [UPat_op [DEFINE_GLOBAL, DEFINE_LOCAL], UPat_op [VIEW]]) None False,
        fxn0 (ret True)),
     (UPat (Some [LOAD]) None
          (SrcTuple [UPat_op [DEFINE_GLOBAL, DEFINE_LOCAL], UPat_op [VIEW], UPat_op [STORE]])
          None False,
        fxn0 (ret True)),

     (UPat (Some [STORE]) None
          (SrcTuple [UPat_op [DEFINE_GLOBAL, DEFINE_LOCAL], UPat_op [VIEW], UPat_any])
          None False,
        fxn0 (ret True)),

     (UPat (Some [INDEX]) None
          (SrcTuple [UPat_op [DEFINE_GLOBAL, DEFINE_LOCAL], UPat_any]) (Some ''idx'') False,
        fxn_opt ''idx'' ''mask'' (validate_index e)),
     (UPat (Some [INDEX]) None
          (SrcTuple [UPat_op [DEFINE_GLOBAL, DEFINE_LOCAL], UPat_any,
                     UPat None (Some [dtypes_bool]) SrcNone (Some ''mask'') False])
          (Some ''idx'') False,
        fxn_opt ''idx'' ''mask'' (validate_index e)),

     (UPat (Some [LOAD]) None (SrcTuple [UPat_op [INDEX, CAST]]) None False,
        fxn0 (ret True)),
     (UPat (Some [LOAD]) None (SrcTuple [UPat_op [INDEX, CAST], UPat_op [IF, BARRIER]])
          None False,
        fxn0 (ret True)),
     (UPat (Some [LOAD]) None (SrcTuple [UPat_op [INDEX, CAST], UPat_var ''alt''])
          (Some ''ld'') False,
        fxn2 ''ld'' ''alt'' (\<lambda>ld alt. ret (dtype ld = dtype alt))),

     (UPat (Some [STORE]) (Some [dtypes_void]) (SrcTuple [UPat_op [INDEX, CAST], UPat_any])
          None False,
        fxn0 (ret True)),
     (UPat (Some [STORE]) (Some [dtypes_void])
          (SrcTuple [UPat_op [INDEX, CAST], UPat_any, UPat_dtype dtypes_bool]) None False,
        fxn0 (ret True)),
     (UPat (Some [STORE]) (Some [dtypes_void])
          (SrcTuple [UPat_op [INDEX, CAST], UPat_any, UPat_op [IF]]) None False,
        fxn0 (ret True)),

     (UPat (Some [WHERE]) None
          (SrcTuple [UPat_dtype dtypes_bool, UPat_var ''x'', UPat_var ''y'']) (Some ''w'') False,
        fxn3 ''w'' ''x'' ''y'' (\<lambda>w x y. ret (dtype w = dtype x \<and> dtype x = dtype y))),
     (UPat (Some [CMPLT, CMPNE]) (Some [dtypes_bool])
          (SrcTuple [UPat_var ''x'', UPat_var ''y'']) None False,
        fxn2 ''x'' ''y'' (\<lambda>x y. ret (base (dtype x) = base (dtype y)))),
     (UPat (Some [SHL, SHR]) None (SrcTuple [UPat_var ''x'', UPat_var ''y'']) (Some ''a'') False,
        fxn3 ''a'' ''x'' ''y'' (\<lambda>a x y. ret (dtype a = dtype x
                                               \<and> dtype y \<in> set [dtype x, dtypes_uint]))),
     (UPat (Some [IDIV, MOD]) None SrcNone (Some ''x'') False,
        fxn1 ''x'' (\<lambda>x. if is_int (dtype x) then ret_None else ret False)),
     (UPat (Some GroupOp_ALU) None SrcNone (Some ''x'') False,
        fxn1 ''x'' (\<lambda>x. ret (list_all (\<lambda>y. base (dtype x) = base (dtype y)) (src x)))),

     (UPat (Some [ASSIGN]) None (SrcTuple [UPat_op [DEFINE_ACC, DEFINE_GLOBAL], UPat_any])
          None False,
        fxn0 (ret True)),
     (UPat (Some [ENDRANGE]) (Some [dtypes_void]) (SrcTuple [UPat_op [RANGE]]) None False,
        fxn0 (ret True)),

     (UPat (Some [WMMA]) None (SrcTuple [UPat_any, UPat_any, UPat_any]) (Some ''x'') False,
        fxn1 ''x'' (\<lambda>x. ret (case arg x of ATuple ys \<Rightarrow> length ys = 8 | _ \<Rightarrow> False))),
     (UPat (Some [CONTRACT]) None SrcNone (Some ''x'') False, fxn1 ''x'' contract_rule),
     (UPat (Some [UNROLL]) None SrcNone (Some ''x'') False, fxn1 ''x'' unroll_rule),

     (UPat (Some [IF]) (Some [dtypes_void]) (SrcTuple [UPat_any]) None False,
        fxn0 (ret True)),
     (UPat (Some [IF]) (Some [dtypes_void]) (SrcTuple [UPat_any, UPat_op [BARRIER]]) None False,
        fxn0 (ret True)),
     (UPat (Some [ENDIF]) (Some [dtypes_void]) (SrcTuple [UPat_op [IF]]) None False,
        fxn0 (ret True)),

     (UPat (Some [REDUCE_AXIS]) None SrcNone (Some ''x'') False, fxn1 ''x'' reduce_axis_rule),
     (UPat (Some [GEP]) None (SrcTuple [UPat_var ''src'']) (Some ''gep'') False,
        fxn2 ''gep'' ''src'' (\<lambda>gep s. ret (dtype gep = scalar (dtype s)))),
     (UPat (Some [VECTORIZE]) None SrcNone (Some ''x'') False, fxn1 ''x'' vectorize_rule),
     (UPat (Some [BITCAST, CAST]) None (SrcTuple [UPat_any]) (Some ''x'') False,
        fxn1 ''x'' (\<lambda>x. ret (arg x = ANone))),
     (UPat (Some [BARRIER]) (Some [dtypes_void])
          (SrcRepeat (UPat (Some [STORE]) None SrcNone None True)) None False,
        fxn0 (ret True)),
     (UPat (Some [BARRIER]) (Some [dtypes_void]) SrcNone None False, fxn0 (ret True)),

     (UPat (Some [SINK]) (Some [dtypes_void]) SrcNone None False, fxn0 (ret True)),
     (UPat_op [NOOP, CUSTOMI, CUSTOM], fxn0 (ret True)),

     (UPat (Some [LOAD, STORE]) None (SrcTuple [UPat_dtype dtypes_int64]) None True,
        fxn0 (ret True))]"

subsection \<open>The rules of shapes, \<^verbatim>\<open>shape_spec\<close>\<close>

text \<open>
  \<^verbatim>\<open>zip(*shapes)\<close>: for each index that every shape has, the sizes of the shapes there. It
  ends with the shortest shape.
\<close>

definition zip_star :: "'a list list \<Rightarrow> 'a list list" where
  "zip_star xss =
    (case xss of
       [] \<Rightarrow> []
     | xs # rest \<Rightarrow>
        map (\<lambda>i. map (\<lambda>ys. ys ! i) xss) [0..<fold min (map length rest) (length xs)])"

text \<open>
  \<^verbatim>\<open>[x.shape for x in xs if x.st is not None]\<close>, the shape of a node being the shape of its
  shape tracker.
\<close>

definition shapes_of :: "UOp list \<Rightarrow> int list list" where
  "shapes_of xs = List.map_filter (\<lambda>x. map_option st_shape (st x)) xs"

text \<open>
  Modelled from the spec: the property \<^verbatim>\<open>UOp.st_arg\<close> of \<^verbatim>\<open>tinygrad.ops\<close>, the shape tracker
  of a buffer operation; it asserts that the node is one and that it has a shape tracker.
  \<open>st_arg_sizes\<close> is \<^verbatim>\<open>[x.st_arg.size for x in xs]\<close>.
\<close>

definition st_arg :: "UOp \<Rightarrow> error + ShapeTracker" where
  "st_arg u =
    (if op u \<notin> set GroupOp_Buffer then Inl AssertionError
     else case st u of None \<Rightarrow> Inl AssertionError | Some t \<Rightarrow> Inr t)"

fun st_arg_sizes :: "UOp list \<Rightarrow> error + int list" where
  "st_arg_sizes [] = Inr []"
| "st_arg_sizes (x # xs) =
    (case st_arg x of
       Inl e \<Rightarrow> Inl e
     | Inr t \<Rightarrow> (case st_arg_sizes xs of Inl e \<Rightarrow> Inl e | Inr ss \<Rightarrow> Inr (st_size t # ss)))"

definition shape_dims :: "UOp \<Rightarrow> int list list" where
  "shape_dims sink =
    map (\<lambda>dims. sort (dedup dims))
      (zip_star (shapes_of (filter (\<lambda>x. op x \<noteq> SINK) (toposort sink))))"

definition verify_sink_dims :: "UOp \<Rightarrow> verdict" where
  "verify_sink_dims sink =
    (case st_arg_sizes (src sink) of
       Inl e \<Rightarrow> Inl e
     | Inr sizes \<Rightarrow>
        ret (all_same sizes \<and>
             list_all (\<lambda>x. length x = 1 \<or> (length x = 2 \<and> hd x = 1)) (shape_dims sink)))"

definition shape_spec :: PatternMatcher where
  "shape_spec =
    [(UPat (Some [SINK]) None (SrcRepeat (UPat_op [STORE])) (Some ''sink'') False,
        fxn1 ''sink'' verify_sink_dims),
     (UPat (Some (ops_minus GroupOp_All [SINK])) None SrcNone (Some ''root'') False,
        fxn1 ''root'' (\<lambda>root. ret (all_same (shapes_of (src root)))))]"

subsection \<open>The driver, \<^verbatim>\<open>type_verify\<close>\<close>

text \<open>
  \<^verbatim>\<open>[s.rewrite(u) for s in specs]\<close>: the results of the rule sets on a node, in order; an
  error raised in one ends it.
\<close>

fun spec_ret :: "PatternMatcher list \<Rightarrow> UOp \<Rightarrow> (error + bool option list) \<times> printed list" where
  "spec_ret [] u = (Inr [], [])"
| "spec_ret (s # ss) u =
    (case rewrite s u of
       (Inl e, out) \<Rightarrow> (Inl e, out)
     | (Inr r, out) \<Rightarrow>
        (case spec_ret ss u of
           (Inl e, out') \<Rightarrow> (Inl e, out @ out')
         | (Inr rs, out') \<Rightarrow> (Inr (r # rs), out @ out')))"

text \<open>
  The loop of \<^verbatim>\<open>type_verify\<close> from position \<open>i\<close> on: a node fails when a result is \<^verbatim>\<open>False\<close>
  or all are \<^verbatim>\<open>None\<close>; the node list is printed before the error at \<^verbatim>\<open>DEBUG\<close> 3 and above.
\<close>

fun verify_from ::
  "env \<Rightarrow> PatternMatcher list \<Rightarrow> UOp list \<Rightarrow> nat \<Rightarrow> UOp list \<Rightarrow> (error + unit) \<times> printed list" where
  "verify_from e specs uops i [] = (Inr (), [])"
| "verify_from e specs uops i (u # us) =
    (case spec_ret specs u of
       (Inl err, out) \<Rightarrow> (Inl err, out)
     | (Inr rets, out) \<Rightarrow>
        if list_ex (\<lambda>r. r = Some False) rets \<or> list_all (\<lambda>r. r = None) rets
        then (Inl (VerificationFailed i (op u) (dtype u) (length (src u)) (map op (src u)) (arg u)),
              out @ (if DEBUG e \<ge> 3 then [PrintUOps uops] else []))
        else (case verify_from e specs uops (Suc i) us of (r, out') \<Rightarrow> (r, out @ out')))"

definition type_verify :: "env \<Rightarrow> UOp list \<Rightarrow> PatternMatcher list \<Rightarrow> (error + unit) \<times> printed list" where
  "type_verify e uops extra_specs = verify_from e (spec e # extra_specs) uops 0 uops"


subsection \<open>Notions of the statements\<close>

text \<open>
  A node fails under a list of rule sets when one of them rejects it or all of them
  abstain: the condition of \<^verbatim>\<open>type_verify\<close>, \<^verbatim>\<open>any(ret is False ...) or all(ret is None ...)\<close>,
  on the results of the rule sets.
\<close>

definition node_fails :: "PatternMatcher list \<Rightarrow> UOp \<Rightarrow> bool" where
  "node_fails specs u \<longleftrightarrow>
    (\<exists>s\<in>set specs. fst (rewrite s u) = Inr (Some False)) \<or>
    (\<forall>s\<in>set specs. fst (rewrite s u) = Inr None)"

text \<open>
  The rule sets return on a node: none of their predicates raises an error there.
\<close>

definition node_quiet :: "PatternMatcher list \<Rightarrow> UOp \<Rightarrow> bool" where
  "node_quiet specs u \<longleftrightarrow> (\<forall>s\<in>set specs. \<exists>r. fst (rewrite s u) = Inr r)"

text \<open>
  The rule sets raise an error on a node: the rule sets are asked in order, and the first
  of them whose predicate raises ends the list \<^verbatim>\<open>[s.rewrite(u) for s in specs]\<close> with its error,
  whatever the rule sets before it returned.
\<close>

definition node_raises :: "PatternMatcher list \<Rightarrow> UOp \<Rightarrow> error \<Rightarrow> bool" where
  "node_raises specs u err \<longleftrightarrow>
    (\<exists>k<length specs. fst (rewrite (specs ! k) u) = Inl err \<and>
       (\<forall>m<k. \<exists>r. fst (rewrite (specs ! m) u) = Inr r))"

text \<open>A node passes: the rule sets return on it, and it does not fail.\<close>

definition node_passes :: "PatternMatcher list \<Rightarrow> UOp \<Rightarrow> bool" where
  "node_passes specs u \<longleftrightarrow> node_quiet specs u \<and> \<not> node_fails specs u"

text \<open>
  The error of \<^verbatim>\<open>type_verify\<close> for the node \<open>u\<close> at position \<open>i\<close>, with the message
  \<^verbatim>\<open>f"UOp verification failed at {i} on {u.op} {u.dtype} {len(u.src)} {[x.op for x in u.src]} {u.arg}"\<close>.
\<close>

definition verification_failed :: "nat \<Rightarrow> UOp \<Rightarrow> error" where
  "verification_failed i u =
    VerificationFailed i (op u) (dtype u) (length (src u)) (map op (src u)) (arg u)"

text \<open>The rules whose pattern admits an operator: those without a list of operators, and those that list it.\<close>

definition for_op :: "Ops \<Rightarrow> UPat \<times> fxn \<Rightarrow> bool" where
  "for_op x r = (case p_op (fst r) of None \<Rightarrow> True | Some ops \<Rightarrow> x \<in> set ops)"

subsection \<open>Nodes of the examples\<close>

definition env0 :: env where
  "env0 = \<lparr>IGNORE_OOB = 0, DEBUG = 0\<rparr>"

definition env_debug :: env where
  "env_debug = \<lparr>IGNORE_OOB = 0, DEBUG = 1\<rparr>"

definition env_ignore_oob :: env where
  "env_ignore_oob = \<lparr>IGNORE_OOB = 1, DEBUG = 1\<rparr>"

text \<open>A node without a shape and with the value range 0 to 0.\<close>

definition node :: "Ops \<Rightarrow> DType \<Rightarrow> UOp list \<Rightarrow> Arg \<Rightarrow> UOp" where
  "node o' d ss a = UOp o' d ss a None 0 0"

text \<open>A node with a shape; its total element count is the product of the sizes.\<close>

definition shaped :: "Ops \<Rightarrow> DType \<Rightarrow> UOp list \<Rightarrow> int list \<Rightarrow> UOp" where
  "shaped o' d ss sh = UOp o' d ss ANone (Some (ShapeTracker sh (prod_list sh))) 0 0"

definition ex_device :: UOp where
  "ex_device = node DEVICE dtypes_void [] (AStr ''CPU'')"

definition ex_unique :: UOp where
  "ex_unique = node UNIQUE dtypes_void [] (AInt 0)"

definition ex_buffer :: "Arg \<Rightarrow> UOp" where
  "ex_buffer a = node BUFFER dtypes_float [ex_device, ex_unique] a"

text \<open>A buffer of ten floats, and an index into it by an offset of the given value range.\<close>

definition ex_global :: UOp where
  "ex_global = node DEFINE_GLOBAL (PtrDType dtypes_float False 1 10) [] (AInt 0)"

definition ex_offset :: "int \<Rightarrow> int \<Rightarrow> UOp" where
  "ex_offset lo hi = UOp RANGE dtypes_int [] (AInt 0) None lo hi"

definition ex_index :: "int \<Rightarrow> int \<Rightarrow> UOp" where
  "ex_index lo hi = node INDEX (PtrDType dtypes_float False 1 10) [ex_global, ex_offset lo hi] ANone"

text \<open>An index into a buffer whose definition depends on a variable, and an index whose offset does.\<close>

definition ex_var :: UOp where
  "ex_var = UOp DEFINE_VAR dtypes_int [] (ATuple [AStr ''i'', AInt 0, AInt 20]) None 0 20"

definition ex_index_buf_var :: UOp where
  "ex_index_buf_var =
    node INDEX (PtrDType dtypes_float False 1 10)
      [node DEFINE_GLOBAL (PtrDType dtypes_float False 1 10) [ex_var] (AInt 0), ex_offset 0 10] ANone"

definition ex_index_var :: UOp where
  "ex_index_var = node INDEX (PtrDType dtypes_float False 1 10) [ex_global, ex_var] ANone"

text \<open>
  Three sinks of one store: the store of shape (3, 4) of a load of shape (1, 4); the store
  of shape (1) of a load of shape (0); the store of shape (2) of a load of shape (2, 3) of
  a load of shape (2, 5).
\<close>

definition ex_sink_broadcast :: UOp where
  "ex_sink_broadcast =
    node SINK dtypes_void
      [shaped STORE dtypes_void [shaped LOAD dtypes_float [] [1, 4]] [3, 4]] ANone"

definition ex_sink_zero :: UOp where
  "ex_sink_zero =
    node SINK dtypes_void [shaped STORE dtypes_void [shaped LOAD dtypes_float [] [0]] [1]] ANone"

definition ex_sink_ranks :: UOp where
  "ex_sink_ranks =
    node SINK dtypes_void
      [shaped STORE dtypes_void
         [shaped LOAD dtypes_float [shaped LOAD dtypes_float [] [2, 5]] [2, 3]] [2]] ANone"

text \<open>An integer division of the value type of floats.\<close>

definition ex_idiv_float :: UOp where
  "ex_idiv_float = node IDIV dtypes_float [] ANone"

text \<open>A kernel over a buffer whose descriptor ends with an ADD.\<close>

definition ex_kernel_add :: UOp where
  "ex_kernel_add =
    node KERNEL dtypes_void [ex_buffer (AInt 4)] (AKernel (node ADD dtypes_float [] ANone))"


section \<open>Lemmas\<close>

subsection \<open>The operator groups and the helpers\<close>

lemma set_GroupOp_All: "set GroupOp_All = UNIV"
proof -
  have "x \<in> set GroupOp_All" for x by (cases x) (simp_all add: GroupOp_All_def)
  then show ?thesis by auto
qed

lemma set_ops_minus: "set (ops_minus xs ys) = set xs - set ys"
  by (auto simp: ops_minus_def)

lemma dedup_foldl:
  "set (foldl (\<lambda>acc x. if x \<in> set acc then acc else acc @ [x]) acc xs) = set acc \<union> set xs
   \<and> (distinct acc \<longrightarrow> distinct (foldl (\<lambda>acc x. if x \<in> set acc then acc else acc @ [x]) acc xs))"
  by (induction xs arbitrary: acc) auto

lemma set_dedup: "set (dedup xs) = set xs"
  using dedup_foldl[of "[]" xs] by (simp add: dedup_def)

lemma distinct_dedup: "distinct (dedup xs)"
  using dedup_foldl[of "[]" xs] by (simp add: dedup_def)

lemma length_dedup: "length (dedup xs) = card (set xs)"
  using distinct_card[OF distinct_dedup, of xs] by (simp add: set_dedup)

lemma hd_sorted_Min:
  fixes xs :: "int list"
  assumes "sorted xs" "xs \<noteq> []"
  shows "hd xs = Min (set xs)"
proof (cases xs)
  case Nil
  with assms show ?thesis by simp
next
  case (Cons a as)
  with assms have "\<forall>y\<in>set xs. a \<le> y" by auto
  with Cons show ?thesis by (intro Min_eqI[symmetric]) auto
qed

lemma hd_sort_dedup:
  fixes xs :: "int list"
  assumes "xs \<noteq> []"
  shows "hd (sort (dedup xs)) = Min (set xs)"
proof -
  have "set (sort (dedup xs)) = set xs" by (simp add: set_dedup)
  moreover have "sort (dedup xs) \<noteq> []" using assms calculation by (metis set_empty)
  ultimately show ?thesis using hd_sorted_Min[of "sort (dedup xs)"] by simp
qed

lemma dims_ok:
  fixes dims :: "int list"
  shows "(length (sort (dedup dims)) = 1 \<or> (length (sort (dedup dims)) = 2 \<and> hd (sort (dedup dims)) = 1))
    \<longleftrightarrow> (card (set dims) = 1 \<or> (card (set dims) = 2 \<and> Min (set dims) = 1))"
proof (cases "dims = []")
  case True
  then show ?thesis by (simp add: dedup_def)
next
  case False
  then show ?thesis by (simp add: length_dedup hd_sort_dedup)
qed

lemma fold_min_less:
  "(i::nat) < fold min ls a \<longleftrightarrow> i < a \<and> (\<forall>l\<in>set ls. i < l)"
  by (induction ls arbitrary: a) auto

lemma set_zip_star:
  "set (zip_star xss) = {map (\<lambda>ys. ys ! i) xss | i. xss \<noteq> [] \<and> (\<forall>ys\<in>set xss. i < length ys)}"
proof (cases xss)
  case Nil
  then show ?thesis by (simp add: zip_star_def)
next
  case (Cons xs rest)
  have "{0..<fold min (map length rest) (length xs)} = {i. \<forall>ys\<in>set (xs # rest). i < length ys}"
    by (auto simp: fold_min_less)
  then show ?thesis using Cons
    by (auto simp: zip_star_def image_def)
qed

lemma set_shapes_of:
  "set (shapes_of xs) = {sh. \<exists>x\<in>set xs. map_option st_shape (st x) = Some sh}"
  by (induction xs) (auto simp: shapes_of_def split: option.splits)

lemma all_same_iff: "all_same xs \<longleftrightarrow> (\<forall>a\<in>set xs. \<forall>b\<in>set xs. a = b)"
proof (cases xs)
  case Nil
  then show ?thesis by (simp add: all_same_def)
next
  case (Cons x rest)
  have "all_same xs \<longleftrightarrow> (\<forall>y\<in>set xs. y = x)" using Cons by (simp add: all_same_def list_all_iff)
  also have "\<dots> \<longleftrightarrow> (\<forall>a\<in>set xs. \<forall>b\<in>set xs. a = b)"
  proof
    assume "\<forall>y\<in>set xs. y = x"
    then show "\<forall>a\<in>set xs. \<forall>b\<in>set xs. a = b" by metis
  next
    assume a: "\<forall>a\<in>set xs. \<forall>b\<in>set xs. a = b"
    have "x \<in> set xs" using Cons by simp
    with a show "\<forall>y\<in>set xs. y = x" by blast
  qed
  finally show ?thesis .
qed

lemma st_arg_sizes_stores:
  assumes "\<forall>s\<in>set xs. op s = STORE \<and> st s \<noteq> None"
  shows "st_arg_sizes xs = Inr (map (\<lambda>s. st_size (the (st s))) xs)"
  using assms by (induction xs) (auto simp: st_arg_def GroupOp_Buffer_def)

lemma all_same_shapes:
  "all_same (shapes_of xs) \<longleftrightarrow>
    (\<forall>x\<in>set xs. \<forall>y\<in>set xs. \<forall>a b. st x = Some a \<and> st y = Some b \<longrightarrow> st_shape a = st_shape b)"
proof
  assume a: "all_same (shapes_of xs)"
  show "\<forall>x\<in>set xs. \<forall>y\<in>set xs. \<forall>a b. st x = Some a \<and> st y = Some b \<longrightarrow> st_shape a = st_shape b"
  proof (intro ballI allI impI)
    fix x y a' b assume h: "x \<in> set xs" "y \<in> set xs" "st x = Some a' \<and> st y = Some b"
    then have "st_shape a' \<in> set (shapes_of xs)" "st_shape b \<in> set (shapes_of xs)"
      unfolding set_shapes_of by force+
    with a show "st_shape a' = st_shape b" unfolding all_same_iff by blast
  qed
next
  assume a: "\<forall>x\<in>set xs. \<forall>y\<in>set xs. \<forall>a b. st x = Some a \<and> st y = Some b \<longrightarrow> st_shape a = st_shape b"
  show "all_same (shapes_of xs)"
    unfolding all_same_iff
  proof (intro ballI)
    fix p q assume "p \<in> set (shapes_of xs)" "q \<in> set (shapes_of xs)"
    then obtain x y where "x \<in> set xs" "map_option st_shape (st x) = Some p"
      "y \<in> set xs" "map_option st_shape (st y) = Some q"
      unfolding set_shapes_of by blast
    then obtain ta tb where "st x = Some ta" "st_shape ta = p" "st y = Some tb" "st_shape tb = q"
      by (cases "st x"; cases "st y") auto
    with a \<open>x \<in> set xs\<close> \<open>y \<in> set xs\<close> show "p = q" by blast
  qed
qed

lemma all_same_sizes:
  assumes "\<forall>s\<in>set xs. st s \<noteq> None"
  shows "all_same (map (\<lambda>s. st_size (the (st s))) xs) \<longleftrightarrow>
    (\<forall>x\<in>set xs. \<forall>y\<in>set xs. \<forall>a b. st x = Some a \<and> st y = Some b \<longrightarrow> st_size a = st_size b)"
proof
  let ?f = "\<lambda>s. st_size (the (st s))"
  assume a: "all_same (map ?f xs)"
  show "\<forall>x\<in>set xs. \<forall>y\<in>set xs. \<forall>a b. st x = Some a \<and> st y = Some b \<longrightarrow> st_size a = st_size b"
  proof (intro ballI allI impI)
    fix x y a' b assume x: "x \<in> set xs" and y: "y \<in> set xs" and h: "st x = Some a' \<and> st y = Some b"
    from x have "?f x \<in> ?f ` set xs" by (rule imageI)
    moreover from y have "?f y \<in> ?f ` set xs" by (rule imageI)
    ultimately have "?f x = ?f y" using a unfolding all_same_iff set_map by blast
    with h show "st_size a' = st_size b" by simp
  qed
next
  let ?f = "\<lambda>s. st_size (the (st s))"
  assume a: "\<forall>x\<in>set xs. \<forall>y\<in>set xs. \<forall>a b. st x = Some a \<and> st y = Some b \<longrightarrow> st_size a = st_size b"
  show "all_same (map ?f xs)"
    unfolding all_same_iff set_map
  proof (intro ballI)
    fix p q assume "p \<in> ?f ` set xs" "q \<in> ?f ` set xs"
    then obtain x y where xy: "x \<in> set xs" "p = ?f x" "y \<in> set xs" "q = ?f y"
      by blast
    from assms xy obtain ta tb where t: "st x = Some ta" "st y = Some tb" by blast
    with a xy(1,3) have "st_size ta = st_size tb" by blast
    with t xy show "p = q" by simp
  qed
qed

lemma shape_dims_ok:
  "list_all (\<lambda>x. length x = 1 \<or> (length x = 2 \<and> hd x = 1)) (shape_dims sink) \<longleftrightarrow>
    (\<forall>i. (\<exists>x\<in>set (toposort sink). op x \<noteq> SINK \<and> st x \<noteq> None) \<longrightarrow>
         (\<forall>x\<in>set (toposort sink). \<forall>t. op x \<noteq> SINK \<and> st x = Some t \<longrightarrow> i < length (st_shape t)) \<longrightarrow>
         (let S = {st_shape t ! i | x t. x \<in> set (toposort sink) \<and> op x \<noteq> SINK \<and> st x = Some t}
          in card S = 1 \<or> (card S = 2 \<and> Min S = 1)))"
proof -
  let ?shs = "shapes_of (filter (\<lambda>x. op x \<noteq> SINK) (toposort sink))"
  have sset: "set ?shs = {st_shape t | x t. x \<in> set (toposort sink) \<and> op x \<noteq> SINK \<and> st x = Some t}"
    unfolding set_shapes_of by (auto simp: map_option_case split: option.splits)
  have col: "set (map (\<lambda>ys. ys ! i) ?shs) =
      {st_shape t ! i | x t. x \<in> set (toposort sink) \<and> op x \<noteq> SINK \<and> st x = Some t}" for i
    unfolding set_map sset by blast
  have ne: "?shs \<noteq> [] \<longleftrightarrow> (\<exists>x\<in>set (toposort sink). op x \<noteq> SINK \<and> st x \<noteq> None)"
  proof -
    have "?shs \<noteq> [] \<longleftrightarrow> set ?shs \<noteq> {}" by simp
    also have "\<dots> \<longleftrightarrow> (\<exists>x\<in>set (toposort sink). op x \<noteq> SINK \<and> st x \<noteq> None)"
      unfolding sset by blast
    finally show ?thesis .
  qed
  have rk: "(\<forall>ys\<in>set ?shs. i < length ys) \<longleftrightarrow>
      (\<forall>x\<in>set (toposort sink). \<forall>t. op x \<noteq> SINK \<and> st x = Some t \<longrightarrow> i < length (st_shape t))" for i
    unfolding sset by blast
  have "list_all (\<lambda>x. length x = 1 \<or> (length x = 2 \<and> hd x = 1)) (shape_dims sink) \<longleftrightarrow>
      (\<forall>dims\<in>set (zip_star ?shs). card (set dims) = 1 \<or> (card (set dims) = 2 \<and> Min (set dims) = 1))"
    unfolding shape_dims_def list_all_iff set_map ball_simps dims_ok ..
  also have "\<dots> \<longleftrightarrow> (\<forall>i. ?shs \<noteq> [] \<longrightarrow> (\<forall>ys\<in>set ?shs. i < length ys) \<longrightarrow>
      (card (set (map (\<lambda>ys. ys ! i) ?shs)) = 1 \<or>
        (card (set (map (\<lambda>ys. ys ! i) ?shs)) = 2 \<and> Min (set (map (\<lambda>ys. ys ! i) ?shs)) = 1)))"
    unfolding set_zip_star by blast
  finally show ?thesis unfolding col ne rk Let_def .
qed

subsection \<open>The pattern matcher\<close>

lemmas pat_defs = UPat_op_def UPat_any_def UPat_var_def UPat_dtype_def match_node_def bind_name_def

lemmas fxn_defs = fxn0_def fxn1_def fxn2_def fxn3_def fxn_opt_def kwargs_ok_def ret_def ret_None_def

lemma match_repeat_plain:
  "match_repeat (UPat (Some ops) None SrcNone None al) us s =
     (if list_all (\<lambda>x. op x \<in> set ops) us then Some s else None)"
  by (induction us) (auto simp: pat_defs)

lemma rewrite_append:
  "rewrite (a @ b) u =
    (case rewrite a u of
       (Inr None, out) \<Rightarrow> (case rewrite b u of (r, out') \<Rightarrow> (r, out @ out'))
     | (r, out) \<Rightarrow> (r, out))"
  by (induction a) (auto split: option.splits prod.splits sum.splits)

text \<open>
  A rule whose pattern names operators applies to nodes of these operators only: the rules
  of a rule set that can apply to a node are those that \<open>for_op\<close> keeps.
\<close>

lemma match_wrong_op:
  assumes "p_op p = Some ops" "op u \<notin> set ops"
  shows "match p u s = None"
proof (cases p)
  case (UPat pop pdt psrc pname al)
  with assms show ?thesis by (cases psrc) (simp_all add: match_node_def)
qed

lemma rewrite_filter: "rewrite pm u = rewrite (filter (for_op (op u)) pm) u"
proof (induction pm)
  case Nil
  show ?case by simp
next
  case (Cons r pm)
  obtain p f where r: "r = (p, f)" by (cases r)
  show ?case
  proof (cases "for_op (op u) r")
    case True
    with Cons r show ?thesis by (simp split: option.splits prod.splits sum.splits)
  next
    case False
    then obtain ops where "p_op p = Some ops" "op u \<notin> set ops"
      by (auto simp: for_op_def r split: option.splits)
    then have "match p u [] = None" by (rule match_wrong_op)
    with Cons r False show ?thesis by simp
  qed
qed

subsection \<open>The rules of buffers, assignments and the schedule graph\<close>

lemma buffer_ok:
  assumes "op u = BUFFER" "map op (src u) = [DEVICE, UNIQUE]"
  shows "rewrite buffer_spec u = (ret (isinstance_int (arg u)), [])"
proof -
  from assms(2) obtain a b where s: "src u = [a, b]" "op a = DEVICE" "op b = UNIQUE"
    by (cases "src u"; cases "tl (src u)") auto
  show ?thesis using assms(1) s
    by (simp add: buffer_spec_def pat_defs fxn_defs isinstance_DType_def)
qed

lemma buffer_abstain:
  assumes "op u = BUFFER" "map op (src u) \<noteq> [DEVICE, UNIQUE]"
  shows "rewrite buffer_spec u = (Inr None, [])"
proof (cases "length (src u) = 2")
  case True
  then obtain a b where s: "src u = [a, b]"
    by (auto simp: length_Suc_conv numeral_2_eq_2)
  with assms show ?thesis
    by (auto simp add: buffer_spec_def pat_defs fxn_defs)
next
  case False
  with assms(1) show ?thesis
    by (simp add: buffer_spec_def pat_defs fxn_defs)
qed

lemma bv_ok:
  assumes "op u = BUFFER_VIEW" "map op (src u) = [BUFFER]"
  shows "rewrite buffer_spec u = (ret (case arg u of ATuple xs \<Rightarrow> length xs = 2 \<and> list_all (\<lambda>a. isinstance_int a \<or> isinstance_UOp a) xs | _ \<Rightarrow> False), [])"
proof -
  from assms(2) obtain a where s: "src u = [a]" "op a = BUFFER"
    by (cases "src u") auto
  show ?thesis using assms(1) s
    by (simp add: buffer_spec_def pat_defs fxn_defs)
qed

lemma bv_abstain:
  assumes "op u = BUFFER_VIEW" "map op (src u) \<noteq> [BUFFER]"
  shows "rewrite buffer_spec u = (Inr None, [])"
proof (cases "length (src u) = 1")
  case True
  then obtain a where s: "src u = [a]"
    by (auto simp: length_Suc_conv)
  with assms show ?thesis
    by (auto simp add: buffer_spec_def pat_defs fxn_defs)
next
  case False
  with assms(1) show ?thesis
    by (simp add: buffer_spec_def pat_defs fxn_defs)
qed

lemma validate_kernel_not_None: "validate_kernel k \<noteq> Inr None"
  by (simp add: validate_kernel_def ret_def split: Arg.splits)

lemma kernel_rule:
  assumes "op k = KERNEL" "list_all (\<lambda>s. op s \<in> {BUFFER, BUFFER_VIEW, ASSIGN}) (src k)"
  shows "rewrite assign_spec k = (validate_kernel k, [])"
proof -
  have m: "match_repeat (UPat_op [BUFFER, BUFFER_VIEW, ASSIGN]) (src k) s = Some s" for s
    using assms(2) by (simp add: UPat_op_def match_repeat_plain)
  show ?thesis
  proof (cases "validate_kernel k")
    case (Inl err)
    with assms(1) m show ?thesis
      by (simp add: assign_spec_def match_node_def bind_name_def fxn1_def kwargs_ok_def)
  next
    case (Inr r)
    with validate_kernel_not_None[of k] obtain b where "r = Some b" by (cases r) auto
    with Inr assms(1) m show ?thesis
      by (simp add: assign_spec_def match_node_def bind_name_def fxn1_def kwargs_ok_def)
  qed
qed

lemma validate_kernel_char:
  assumes "arg k = AKernel a"
  shows "validate_kernel k =
    (if op a \<notin> {COPY, BUFFER_VIEW, SINK} then Inl (MustEndWith (arg k))
     else if op a = SINK \<and> (\<exists>s\<in>set (src a). op s \<noteq> STORE) then Inl (SinkMustEndWithStore a)
     else ret True)"
  using assms by (auto simp: validate_kernel_def list_all_iff)

lemma buffer_spec_other:
  assumes "op u \<notin> {UNIQUE, DEVICE, BUFFER, BUFFER_VIEW}"
  shows "rewrite buffer_spec u = (Inr None, [])"
  using assms by (simp add: buffer_spec_def match_node_def)

lemma assign_spec_other:
  assumes "op u \<notin> {KERNEL, ASSIGN}"
  shows "rewrite assign_spec u = (Inr None, [])"
  using assms by (simp add: assign_spec_def match_node_def)

lemma catch_all:
  "rewrite [(UPat_op (ops_minus GroupOp_All [SINK]), fxn0 (ret False))] u =
    (if op u = SINK then (Inr None, []) else (ret False, []))"
  by (simp add: pat_defs set_ops_minus set_GroupOp_All fxn_defs ret_def)

lemma sched_other:
  assumes "op u \<notin> {UNIQUE, DEVICE, BUFFER, BUFFER_VIEW, KERNEL, ASSIGN, SINK}"
  shows "rewrite sched_spec u = (ret False, [])"
  using assms unfolding sched_spec_def
  by (simp add: rewrite_append buffer_spec_other assign_spec_other catch_all del: rewrite.simps)

lemma sched_sink:
  assumes "op u = SINK"
  shows "rewrite sched_spec u = (Inr None, [])"
  using assms unfolding sched_spec_def
  by (simp add: rewrite_append buffer_spec_other assign_spec_other catch_all del: rewrite.simps)

lemma sched_general:
  "rewrite sched_spec u =
    (case rewrite (buffer_spec @ assign_spec) u of
       (Inr None, out) \<Rightarrow> (if op u = SINK then Inr None else ret False, out)
     | (r, out) \<Rightarrow> (r, out))"
  unfolding sched_spec_def
  by (simp add: rewrite_append[of buffer_spec "assign_spec @ _"] rewrite_append[of assign_spec]
      rewrite_append[of buffer_spec assign_spec] catch_all del: rewrite.simps split: prod.splits sum.splits option.splits)

subsection \<open>The rules of the rendered graph\<close>

lemma spec_BARRIER: "filter (for_op BARRIER) (spec e) =
   [(UPat (Some [BARRIER]) (Some [dtypes_void])
          (SrcRepeat (UPat (Some [STORE]) None SrcNone None True)) None False,
        fxn0 (ret True)),
     (UPat (Some [BARRIER]) (Some [dtypes_void]) SrcNone None False, fxn0 (ret True))]"
  by (simp add: spec_def for_op_def UPat_op_def GroupOp_ALU_def)

lemma barrier:
  assumes "op u = BARRIER"
  shows "rewrite (spec e) u = (if dtype u = dtypes_void then ret True else Inr None, [])"
  by (subst rewrite_filter) (simp add: assms spec_BARRIER pat_defs fxn_defs match_repeat_plain)

lemma spec_SHL: "x = SHL \<or> x = SHR \<Longrightarrow> filter (for_op x) (spec e) =
   [(UPat (Some [SHL, SHR]) None (SrcTuple [UPat_var ''x'', UPat_var ''y'']) (Some ''a'') False,
        fxn3 ''a'' ''x'' ''y'' (\<lambda>a x y. ret (dtype a = dtype x
                                               \<and> dtype y \<in> set [dtype x, dtypes_uint]))),
     (UPat (Some GroupOp_ALU) None SrcNone (Some ''x'') False,
        fxn1 ''x'' (\<lambda>x. ret (list_all (\<lambda>y. base (dtype x) = base (dtype y)) (src x))))]"
  by (auto simp add: spec_def for_op_def UPat_op_def GroupOp_ALU_def)

lemma shift:
  assumes "op u = SHL \<or> op u = SHR" "src u = [x, y]"
  shows "rewrite (spec e) u =
    (ret (dtype u = dtype x \<and> (dtype y = dtype x \<or> dtype y = dtypes_uint)), [])"
  apply (subst rewrite_filter)
  apply (subst spec_SHL[OF assms(1)])
  using assms by (auto simp add: pat_defs fxn_defs)

lemma spec_STORE: "filter (for_op STORE) (spec e) =
   [(UPat (Some [STORE]) None
          (SrcTuple [UPat_op [DEFINE_GLOBAL, DEFINE_LOCAL], UPat_op [VIEW], UPat_any])
          None False,
        fxn0 (ret True)),
     (UPat (Some [STORE]) (Some [dtypes_void]) (SrcTuple [UPat_op [INDEX, CAST], UPat_any])
          None False,
        fxn0 (ret True)),
     (UPat (Some [STORE]) (Some [dtypes_void])
          (SrcTuple [UPat_op [INDEX, CAST], UPat_any, UPat_dtype dtypes_bool]) None False,
        fxn0 (ret True)),
     (UPat (Some [STORE]) (Some [dtypes_void])
          (SrcTuple [UPat_op [INDEX, CAST], UPat_any, UPat_op [IF]]) None False,
        fxn0 (ret True)),
     (UPat (Some [LOAD, STORE]) None (SrcTuple [UPat_dtype dtypes_int64]) None True,
        fxn0 (ret True))]"
  by (simp add: spec_def for_op_def UPat_op_def GroupOp_ALU_def)

lemma spec_LOAD: "filter (for_op LOAD) (spec e) =
   [(UPat (Some [LOAD]) None
          (SrcTuple [UPat_op [DEFINE_GLOBAL, DEFINE_LOCAL], UPat_op [VIEW]]) None False,
        fxn0 (ret True)),
     (UPat (Some [LOAD]) None
          (SrcTuple [UPat_op [DEFINE_GLOBAL, DEFINE_LOCAL], UPat_op [VIEW], UPat_op [STORE]])
          None False,
        fxn0 (ret True)),
     (UPat (Some [LOAD]) None (SrcTuple [UPat_op [INDEX, CAST]]) None False,
        fxn0 (ret True)),
     (UPat (Some [LOAD]) None (SrcTuple [UPat_op [INDEX, CAST], UPat_op [IF, BARRIER]])
          None False,
        fxn0 (ret True)),
     (UPat (Some [LOAD]) None (SrcTuple [UPat_op [INDEX, CAST], UPat_var ''alt''])
          (Some ''ld'') False,
        fxn2 ''ld'' ''alt'' (\<lambda>ld alt. ret (dtype ld = dtype alt))),
     (UPat (Some [LOAD, STORE]) None (SrcTuple [UPat_dtype dtypes_int64]) None True,
        fxn0 (ret True))]"
  by (simp add: spec_def for_op_def UPat_op_def GroupOp_ALU_def)

lemma list_shape4:
  obtains (zero) "rest = []" | (one) a where "rest = [a]" | (two) a b where "rest = [a, b]"
  | (more) a b c r where "rest = a # b # c # r"
  by (cases rest; cases "tl rest"; cases "tl (tl rest)") auto

lemma store64:
  assumes "op u = STORE" "src u = s0 # rest" "dtype s0 = dtypes_int64"
  shows "rewrite (spec e) u = (ret True, [])"
proof -
  have r: "rewrite (spec e) u = rewrite (filter (for_op STORE) (spec e)) u"
    using rewrite_filter[of "spec e" u] assms(1) by simp
  show ?thesis
    unfolding r spec_STORE
    using assms
    by (cases rest rule: list_shape4) (simp_all add: pat_defs fxn_defs)
qed

lemma load64:
  assumes "op u = LOAD" "src u = s0 # rest" "dtype s0 = dtypes_int64"
  shows "rewrite (spec e) u =
    (if op s0 \<in> {INDEX, CAST} \<and> (\<exists>alt. rest = [alt] \<and> op alt \<notin> {IF, BARRIER} \<and> dtype alt \<noteq> dtype u)
     then ret False else ret True, [])"
proof -
  have r: "rewrite (spec e) u = rewrite (filter (for_op LOAD) (spec e)) u"
    using rewrite_filter[of "spec e" u] assms(1) by simp
  show ?thesis
    unfolding r spec_LOAD
    using assms
    by (cases rest rule: list_shape4) (auto simp add: pat_defs fxn_defs)
qed

lemma spec_INDEX: "filter (for_op INDEX) (spec e) =
   [(UPat (Some [INDEX]) None
          (SrcTuple [UPat_op [DEFINE_GLOBAL, DEFINE_LOCAL], UPat_any]) (Some ''idx'') False,
        fxn_opt ''idx'' ''mask'' (validate_index e)),
     (UPat (Some [INDEX]) None
          (SrcTuple [UPat_op [DEFINE_GLOBAL, DEFINE_LOCAL], UPat_any,
                     UPat None (Some [dtypes_bool]) SrcNone (Some ''mask'') False])
          (Some ''idx'') False,
        fxn_opt ''idx'' ''mask'' (validate_index e))]"
  by (simp add: spec_def for_op_def UPat_op_def GroupOp_ALU_def)

lemma validate_index_cases:
  "(\<exists>err. validate_index e idx m = (Inl err, [])) \<or> (\<exists>b out. validate_index e idx m = (ret b, out))"
  by (auto simp: validate_index_def split: sum.splits bool.splits list.splits)

lemma index_rule_two:
  assumes "op idx = INDEX" "src idx = [b, off]" "op b \<in> {DEFINE_GLOBAL, DEFINE_LOCAL}"
  shows "rewrite (spec e) idx = validate_index e idx None"
proof -
  have "rewrite (spec e) idx =
     (case validate_index e idx None of (Inr None, out) \<Rightarrow> (Inr None, out) | (r, out) \<Rightarrow> (r, out))"
    apply (subst rewrite_filter)
    apply (simp only: assms(1) spec_INDEX)
    using assms
    by (auto simp add: pat_defs fxn_opt_def split: prod.splits sum.splits option.splits)
  then show ?thesis
    using validate_index_cases[of e idx None]
    by (auto simp: ret_def)
qed

lemma index_rule_three:
  assumes "op idx = INDEX" "src idx = [b, off, m]" "op b \<in> {DEFINE_GLOBAL, DEFINE_LOCAL}"
    "dtype m = dtypes_bool"
  shows "rewrite (spec e) idx = validate_index e idx (Some m)"
proof -
  have "rewrite (spec e) idx =
     (case validate_index e idx (Some m) of (Inr None, out) \<Rightarrow> (Inr None, out) | (r, out) \<Rightarrow> (r, out))"
    apply (subst rewrite_filter)
    apply (simp only: assms(1) spec_INDEX)
    using assms
    by (auto simp add: pat_defs fxn_opt_def split: prod.splits sum.splits option.splits)
  then show ?thesis
    using validate_index_cases[of e idx "Some m"]
    by (auto simp: ret_def)
qed

lemma any_unbounded_char:
  assumes "\<forall>x\<in>set xs. op x = SPECIAL \<longrightarrow> isinstance_tuple (arg x)"
  shows "any_unbounded xs = Inr (\<exists>x\<in>set xs. op x \<in> {DEFINE_VAR, BITCAST} \<or>
      (op x = SPECIAL \<and> (\<exists>ys. arg x = ATuple ys \<and> (\<exists>y\<in>set (tl ys). \<not> isinstance_int y))))"
  using assms
proof (induction xs)
  case Nil
  show ?case by simp
next
  case (Cons x xs)
  show ?case
  proof (cases "op x = SPECIAL")
    case True
    with Cons.prems obtain ys where ys: "arg x = ATuple ys"
      by (cases "arg x") auto
    with True Cons show ?thesis
      by (auto simp: list_ex_iff split: bool.splits)
  next
    case False
    with Cons show ?thesis by auto
  qed
qed

lemma index_bounds:
  assumes "IGNORE_OOB e = 0" "op idx = INDEX" "src idx = [buf, off]"
    "op buf \<in> {DEFINE_GLOBAL, DEFINE_LOCAL}" "\<not> isinstance_ImageDType (dtype idx)"
    "dtype_size (dtype buf) = Inr sz"
    "\<forall>x\<in>set (toposort idx). op x = SPECIAL \<longrightarrow> isinstance_tuple (arg x)"
  shows "rewrite (spec e) idx =
    (if \<exists>x\<in>set (toposort idx). op x \<in> {DEFINE_VAR, BITCAST} \<or>
          (op x = SPECIAL \<and> (\<exists>ys. arg x = ATuple ys \<and> (\<exists>y\<in>set (tl ys). \<not> isinstance_int y)))
     then (ret True, [])
     else if sz \<noteq> -1 \<and> (vmin off < 0 \<or> sz \<le> vmax off)
       then (ret False, if 1 \<le> DEBUG e then [OutOfBoundsAccess (vmin off) (vmax off) sz off] else [])
     else (ret True, []))"
proof -
  let ?P = "\<exists>x\<in>set (toposort idx). op x \<in> {DEFINE_VAR, BITCAST} \<or>
          (op x = SPECIAL \<and> (\<exists>ys. arg x = ATuple ys \<and> (\<exists>y\<in>set (tl ys). \<not> isinstance_int y)))"
  have au: "any_unbounded (toposort idx) = Inr ?P"
    by (rule any_unbounded_char[OF assms(7)])
  show ?thesis
  proof (cases ?P)
    case True
    then have "any_unbounded (toposort idx) = Inr True" using au by simp
    with True assms(1,5) show ?thesis
      unfolding index_rule_two[OF assms(2,3,4)]
      by (simp add: validate_index_def)
  next
    case False
    then have "any_unbounded (toposort idx) = Inr False" using au by simp
    with False assms(1,3,5,6) show ?thesis
      unfolding index_rule_two[OF assms(2,3,4)]
      by (auto simp add: validate_index_def)
  qed
qed

subsection \<open>The driver\<close>

lemma spec_ret_Inr:
  "fst (spec_ret specs u) = Inr rs \<longleftrightarrow> list_all2 (\<lambda>s r. fst (rewrite s u) = Inr r) specs rs"
proof (induction specs arbitrary: rs)
  case Nil
  show ?case by auto
next
  case (Cons s specs)
  let ?P = "\<lambda>s r. fst (rewrite s u) = Inr r"
  obtain v out where rw: "rewrite s u = (v, out)" by (cases "rewrite s u")
  obtain v' out' where sr: "spec_ret specs u = (v', out')" by (cases "spec_ret specs u")
  have IH: "v' = Inr rs0 \<longleftrightarrow> list_all2 ?P specs rs0" for rs0
    using Cons[of rs0] sr by simp
  have unf: "list_all2 ?P (s # specs) rs \<longleftrightarrow> (\<exists>r0 rs0. rs = r0 # rs0 \<and> v = Inr r0 \<and> v' = Inr rs0)"
    using rw IH by (simp add: list_all2_Cons1)
  show ?case
  proof (cases v)
    case (Inl err)
    then have "fst (spec_ret (s # specs) u) = Inl err" using rw by simp
    with Inl unf show ?thesis by simp
  next
    case vr: (Inr r)
    show ?thesis
    proof (cases v')
      case (Inl err)
      then have "fst (spec_ret (s # specs) u) = Inl err" using rw sr vr by simp
      with Inl unf show ?thesis by simp
    next
      case (Inr rs')
      then have "fst (spec_ret (s # specs) u) = Inr (r # rs')" using rw sr vr by simp
      with Inr vr unf show ?thesis by auto
    qed
  qed
qed

lemma spec_ret_no_raise:
  assumes "\<forall>s\<in>set specs. \<exists>r. fst (rewrite s u) = Inr r"
  shows "\<exists>rs. fst (spec_ret specs u) = Inr rs \<and> length rs = length specs \<and>
     (\<forall>k<length specs. fst (rewrite (specs ! k) u) = Inr (rs ! k))"
proof -
  from assms have "\<exists>rs. list_all2 (\<lambda>s r. fst (rewrite s u) = Inr r) specs rs"
  proof (induction specs)
    case Nil
    show ?case by simp
  next
    case (Cons s specs)
    then obtain rs r where "list_all2 (\<lambda>s r. fst (rewrite s u) = Inr r) specs rs"
      "fst (rewrite s u) = Inr r" by auto
    then have "list_all2 (\<lambda>s r. fst (rewrite s u) = Inr r) (s # specs) (r # rs)" by simp
    then show ?case by blast
  qed
  then obtain rs where rs: "list_all2 (\<lambda>s r. fst (rewrite s u) = Inr r) specs rs" ..
  then have "fst (spec_ret specs u) = Inr rs" by (simp add: spec_ret_Inr)
  with rs show ?thesis by (auto simp: list_all2_conv_all_nth)
qed

lemma bad_rets:
  assumes "fst (spec_ret specs u) = Inr rs"
  shows "(list_ex (\<lambda>r. r = Some False) rs \<or> list_all (\<lambda>r. r = None) rs) \<longleftrightarrow> node_fails specs u"
proof -
  from assms have l: "list_all2 (\<lambda>s r. fst (rewrite s u) = Inr r) specs rs" by (simp add: spec_ret_Inr)
  then have len: "length specs = length rs" and nth: "\<And>k. k < length specs \<Longrightarrow> fst (rewrite (specs ! k) u) = Inr (rs ! k)"
    by (auto simp: list_all2_conv_all_nth)
  have 1: "list_ex (\<lambda>r. r = Some False) rs \<longleftrightarrow> (\<exists>s\<in>set specs. fst (rewrite s u) = Inr (Some False))"
  proof
    assume "list_ex (\<lambda>r. r = Some False) rs"
    then obtain k where "k < length rs" "rs ! k = Some False"
      by (auto simp: list_ex_iff in_set_conv_nth)
    with len nth[of k] have "specs ! k \<in> set specs" "fst (rewrite (specs ! k) u) = Inr (Some False)"
      by auto
    then show "\<exists>s\<in>set specs. fst (rewrite s u) = Inr (Some False)" by blast
  next
    assume "\<exists>s\<in>set specs. fst (rewrite s u) = Inr (Some False)"
    then obtain k where "k < length specs" "fst (rewrite (specs ! k) u) = Inr (Some False)"
      by (auto simp: in_set_conv_nth)
    with len nth[of k] have "rs ! k = Some False" "k < length rs" by auto
    then show "list_ex (\<lambda>r. r = Some False) rs"
      unfolding list_ex_iff using nth_mem by force
  qed
  have 2: "list_all (\<lambda>r. r = None) rs \<longleftrightarrow> (\<forall>s\<in>set specs. fst (rewrite s u) = Inr None)"
  proof
    assume a: "list_all (\<lambda>r. r = None) rs"
    show "\<forall>s\<in>set specs. fst (rewrite s u) = Inr None"
    proof
      fix s assume "s \<in> set specs"
      then obtain k where k: "k < length specs" "specs ! k = s" by (auto simp: in_set_conv_nth)
      with len have "rs ! k \<in> set rs" by simp
      with a have "rs ! k = None" by (simp add: list_all_iff)
      with nth[OF k(1)] k(2) show "fst (rewrite s u) = Inr None" by simp
    qed
  next
    assume a: "\<forall>s\<in>set specs. fst (rewrite s u) = Inr None"
    have "r = None" if "r \<in> set rs" for r
    proof -
      from that obtain k where k: "k < length rs" "rs ! k = r" by (auto simp: in_set_conv_nth)
      with len have "specs ! k \<in> set specs" by simp
      with a have "fst (rewrite (specs ! k) u) = Inr None" by blast
      with nth[of k] k len show ?thesis by simp
    qed
    then show "list_all (\<lambda>r. r = None) rs" by (simp add: list_all_iff)
  qed
  show ?thesis unfolding node_fails_def 1 2 ..
qed

lemma verify_from_step:
  assumes "\<forall>s\<in>set specs. \<exists>r. fst (rewrite s u) = Inr r"
  shows "fst (verify_from e specs uops i (u # us)) =
    (if node_fails specs u
     then Inl (VerificationFailed i (op u) (dtype u) (length (src u)) (map op (src u)) (arg u))
     else fst (verify_from e specs uops (Suc i) us))"
proof -
  from spec_ret_no_raise[OF assms] obtain rs where rs: "fst (spec_ret specs u) = Inr rs" by blast
  then obtain out where sr: "spec_ret specs u = (Inr rs, out)" by (cases "spec_ret specs u") auto
  show ?thesis using bad_rets[OF rs] sr
    by (auto split: prod.splits)
qed

lemma node_raises_Cons:
  "node_raises (s # specs) u err \<longleftrightarrow>
     fst (rewrite s u) = Inl err \<or> ((\<exists>r. fst (rewrite s u) = Inr r) \<and> node_raises specs u err)"
proof
  assume "node_raises (s # specs) u err"
  then obtain k where k: "k < length (s # specs)" "fst (rewrite ((s # specs) ! k) u) = Inl err"
     "\<forall>m<k. \<exists>r. fst (rewrite ((s # specs) ! m) u) = Inr r"
    unfolding node_raises_def by blast
  show "fst (rewrite s u) = Inl err \<or> ((\<exists>r. fst (rewrite s u) = Inr r) \<and> node_raises specs u err)"
  proof (cases k)
    case 0
    with k(2) show ?thesis by simp
  next
    case (Suc k')
    with k(3) have "\<exists>r. fst (rewrite ((s # specs) ! 0) u) = Inr r" by blast
    then have a: "\<exists>r. fst (rewrite s u) = Inr r" by simp
    have b: "\<forall>m<k'. \<exists>r. fst (rewrite (specs ! m) u) = Inr r"
    proof (intro allI impI)
      fix m assume "m < k'"
      then have "Suc m < k" using Suc by simp
      with k(3) have "\<exists>r. fst (rewrite ((s # specs) ! Suc m) u) = Inr r" by blast
      then show "\<exists>r. fst (rewrite (specs ! m) u) = Inr r" by simp
    qed
    from k(1,2) Suc have "k' < length specs" "fst (rewrite (specs ! k') u) = Inl err" by simp_all
    with b have "node_raises specs u err" unfolding node_raises_def by blast
    with a show ?thesis by blast
  qed
next
  assume "fst (rewrite s u) = Inl err \<or> ((\<exists>r. fst (rewrite s u) = Inr r) \<and> node_raises specs u err)"
  then consider (a) "fst (rewrite s u) = Inl err"
    | (b) "\<exists>r. fst (rewrite s u) = Inr r" "node_raises specs u err" by blast
  then show "node_raises (s # specs) u err"
  proof cases
    case a
    then have "0 < length (s # specs) \<and> fst (rewrite ((s # specs) ! 0) u) = Inl err \<and>
       (\<forall>m<0. \<exists>r. fst (rewrite ((s # specs) ! m) u) = Inr r)" by simp
    then show ?thesis unfolding node_raises_def by blast
  next
    case b
    from b(2) obtain k where k: "k < length specs" "fst (rewrite (specs ! k) u) = Inl err"
       "\<forall>m<k. \<exists>r. fst (rewrite (specs ! m) u) = Inr r"
      unfolding node_raises_def by blast
    have c: "\<forall>m<Suc k. \<exists>r. fst (rewrite ((s # specs) ! m) u) = Inr r"
    proof (intro allI impI)
      fix m assume m: "m < Suc k"
      show "\<exists>r. fst (rewrite ((s # specs) ! m) u) = Inr r"
      proof (cases m)
        case 0
        with b(1) show ?thesis by simp
      next
        case (Suc m')
        with m k(3) show ?thesis by simp
      qed
    qed
    from k(1,2) have "Suc k < length (s # specs)" "fst (rewrite ((s # specs) ! Suc k) u) = Inl err"
      by simp_all
    with c show ?thesis unfolding node_raises_def by blast
  qed
qed

lemma spec_ret_Inl: "fst (spec_ret specs u) = Inl err \<longleftrightarrow> node_raises specs u err"
proof (induction specs)
  case Nil
  show ?case by (simp add: node_raises_def)
next
  case (Cons s specs)
  obtain v out where rw: "rewrite s u = (v, out)" by (cases "rewrite s u")
  obtain v' out' where sr: "spec_ret specs u = (v', out')" by (cases "spec_ret specs u")
  show ?case
  proof (cases v)
    case (Inl e)
    with rw show ?thesis by (simp add: node_raises_Cons)
  next
    case (Inr r)
    with rw sr Cons show ?thesis by (cases v') (simp_all add: node_raises_Cons)
  qed
qed

lemma node_quiet_iff: "node_quiet specs u \<longleftrightarrow> (\<exists>rs. fst (spec_ret specs u) = Inr rs)"
proof
  assume "node_quiet specs u"
  then have "\<forall>s\<in>set specs. \<exists>r. fst (rewrite s u) = Inr r" by (simp add: node_quiet_def)
  from spec_ret_no_raise[OF this] show "\<exists>rs. fst (spec_ret specs u) = Inr rs" by blast
next
  assume "\<exists>rs. fst (spec_ret specs u) = Inr rs"
  then obtain rs where "list_all2 (\<lambda>s r. fst (rewrite s u) = Inr r) specs rs"
    by (auto simp: spec_ret_Inr)
  then have nth: "\<And>k. k < length specs \<Longrightarrow> fst (rewrite (specs ! k) u) = Inr (rs ! k)"
    by (auto simp: list_all2_conv_all_nth)
  show "node_quiet specs u"
    unfolding node_quiet_def
  proof
    fix s assume "s \<in> set specs"
    then obtain k where "k < length specs" "specs ! k = s" by (auto simp: in_set_conv_nth)
    with nth[of k] show "\<exists>r. fst (rewrite s u) = Inr r" by auto
  qed
qed

lemma quiet_or_raises: "node_quiet specs u \<or> (\<exists>err. node_raises specs u err)"
proof (cases "fst (spec_ret specs u)")
  case (Inl err)
  then show ?thesis by (auto simp: spec_ret_Inl)
next
  case (Inr rs)
  then show ?thesis by (auto simp: node_quiet_iff)
qed

lemma quiet_not_raises: "node_quiet specs u \<Longrightarrow> \<not> node_raises specs u err"
  by (auto simp: node_quiet_iff spec_ret_Inl[symmetric])

lemma verify_from_quiet:
  assumes "node_quiet specs u"
  shows "fst (verify_from e specs uops i (u # us)) =
    (if node_fails specs u then Inl (verification_failed i u)
     else fst (verify_from e specs uops (Suc i) us))"
  using verify_from_step[of specs u e uops i us] assms
  by (simp add: node_quiet_def verification_failed_def del: verify_from.simps)

lemma verify_from_raises:
  assumes "node_raises specs u err"
  shows "fst (verify_from e specs uops i (u # us)) = Inl err"
proof -
  from assms have "fst (spec_ret specs u) = Inl err" by (simp add: spec_ret_Inl)
  then obtain out where "spec_ret specs u = (Inl err, out)" by (cases "spec_ret specs u") auto
  then show ?thesis by simp
qed

lemma verify_from_prefix:
  assumes "\<forall>v\<in>set pre. node_passes specs v"
  shows "fst (verify_from e specs uops i (pre @ rest)) =
    fst (verify_from e specs uops (i + length pre) rest)"
  using assms
proof (induction pre arbitrary: i)
  case Nil
  show ?case by simp
next
  case (Cons v pre)
  then show ?case by (simp add: verify_from_quiet node_passes_def del: verify_from.simps)
qed

lemma take_passes:
  assumes "i \<le> length uops" and "\<forall>j<i. node_passes specs (uops ! j)"
  shows "\<forall>v\<in>set (take i uops). node_passes specs v"
proof
  fix v assume "v \<in> set (take i uops)"
  then obtain j where "j < i" "j < length uops" "v = uops ! j"
    by (auto simp: in_set_conv_nth)
  with assms(2) show "node_passes specs v" by simp
qed

text \<open>
  The loop on a list whose first \<open>i\<close> nodes pass: it is at the node of position \<open>i\<close>, with the
  position counted right.
\<close>

lemma verify_from_at:
  assumes i: "i < length uops" and b: "\<forall>j<i. node_passes specs (uops ! j)"
  shows "fst (verify_from e specs uops 0 uops) =
     fst (verify_from e specs uops i (uops ! i # drop (Suc i) uops))"
proof -
  have split: "uops = take i uops @ uops ! i # drop (Suc i) uops"
    using i by (rule id_take_nth_drop)
  have pre: "\<forall>v\<in>set (take i uops). node_passes specs v"
    using i b by (intro take_passes) simp_all
  have "fst (verify_from e specs uops 0 (take i uops @ uops ! i # drop (Suc i) uops)) =
     fst (verify_from e specs uops (0 + length (take i uops)) (uops ! i # drop (Suc i) uops))"
    using pre by (rule verify_from_prefix)
  with split i show ?thesis by simp
qed

lemma verify_from_fail:
  assumes "i < length uops" and "\<forall>j<i. node_passes specs (uops ! j)"
    and "node_quiet specs (uops ! i)" and "node_fails specs (uops ! i)"
  shows "fst (verify_from e specs uops 0 uops) = Inl (verification_failed i (uops ! i))"
  using verify_from_at[OF assms(1,2)] assms(3,4)
  by (simp add: verify_from_quiet del: verify_from.simps)

lemma verify_from_raise:
  assumes "i < length uops" and "\<forall>j<i. node_passes specs (uops ! j)"
    and "node_raises specs (uops ! i) err"
  shows "fst (verify_from e specs uops 0 uops) = Inl err"
  using verify_from_at[OF assms(1,2)] assms(3)
  by (simp add: verify_from_raises del: verify_from.simps)

lemma verify_from_pass:
  assumes "\<forall>i<length uops. node_passes specs (uops ! i)"
  shows "fst (verify_from e specs uops 0 uops) = Inr ()"
proof -
  have "\<forall>v\<in>set (take (length uops) uops). node_passes specs v"
    using assms by (intro take_passes) simp_all
  then have "\<forall>v\<in>set uops. node_passes specs v" by simp
  from verify_from_prefix[OF this, of e uops 0 "[]"] show ?thesis by simp
qed

text \<open>Either every node passes, or there is a first node that does not.\<close>

lemma first_stop:
  "(\<forall>i<length uops. node_passes specs (uops ! i)) \<or>
   (\<exists>k<length uops. \<not> node_passes specs (uops ! k) \<and> (\<forall>j<k. node_passes specs (uops ! j)))"
proof (cases "\<forall>i<length uops. node_passes specs (uops ! i)")
  case True
  then show ?thesis by blast
next
  case False
  then have "\<exists>k. k < length uops \<and> \<not> node_passes specs (uops ! k)" by blast
  then obtain k where k: "k < length uops \<and> \<not> node_passes specs (uops ! k)"
      "\<And>j. j < k \<Longrightarrow> \<not> (j < length uops \<and> \<not> node_passes specs (uops ! j))"
    using exists_least_iff[of "\<lambda>k. k < length uops \<and> \<not> node_passes specs (uops ! k)"] by blast
  then have "\<forall>j<k. node_passes specs (uops ! j)" by (meson less_trans)
  with k(1) show ?thesis by blast
qed

text \<open>
  The result of the loop on every list: at the first node that does not pass, the error
  of a predicate if one raises there, and the error of the loop if not.
\<close>

lemma verify_from_stop:
  assumes k: "k < length uops" and n: "\<not> node_passes specs (uops ! k)"
    and b: "\<forall>j<k. node_passes specs (uops ! j)"
  shows "(node_quiet specs (uops ! k) \<and> node_fails specs (uops ! k) \<and>
            fst (verify_from e specs uops 0 uops) = Inl (verification_failed k (uops ! k))) \<or>
         (\<exists>err. node_raises specs (uops ! k) err \<and> fst (verify_from e specs uops 0 uops) = Inl err)"
proof (cases "node_quiet specs (uops ! k)")
  case True
  with n have f: "node_fails specs (uops ! k)" by (simp add: node_passes_def)
  from verify_from_fail[OF k b True f] True f show ?thesis by blast
next
  case False
  with quiet_or_raises[of specs "uops ! k"] obtain err where r: "node_raises specs (uops ! k) err"
    by blast
  from verify_from_raise[OF k b r] r show ?thesis by blast
qed

lemma verify_from_normal:
  assumes "fst (verify_from e specs uops 0 uops) = Inr ()"
  shows "\<forall>i<length uops. node_passes specs (uops ! i)"
proof (rule ccontr)
  assume "\<not> (\<forall>i<length uops. node_passes specs (uops ! i))"
  with first_stop[of uops specs] obtain k where k: "k < length uops"
      "\<not> node_passes specs (uops ! k)" "\<forall>j<k. node_passes specs (uops ! j)" by blast
  from verify_from_stop[OF k, of e] assms show False by auto
qed

lemma verify_from_failed:
  assumes r: "fst (verify_from e specs uops 0 uops) = Inl (verification_failed i (uops ! i))"
    and nf: "\<forall>j<length uops. \<not> node_raises specs (uops ! j) (verification_failed i (uops ! i))"
  shows "node_quiet specs (uops ! i) \<and> node_fails specs (uops ! i) \<and>
     (\<forall>j<i. node_passes specs (uops ! j))"
proof -
  have "\<not> (\<forall>i<length uops. node_passes specs (uops ! i))"
    using verify_from_pass[of uops specs e] r by auto
  with first_stop[of uops specs] obtain k where k: "k < length uops"
      "\<not> node_passes specs (uops ! k)" "\<forall>j<k. node_passes specs (uops ! j)" by blast
  from verify_from_stop[OF k, of e] show ?thesis
  proof
    assume a: "node_quiet specs (uops ! k) \<and> node_fails specs (uops ! k) \<and>
            fst (verify_from e specs uops 0 uops) = Inl (verification_failed k (uops ! k))"
    with r have "k = i" by (simp add: verification_failed_def)
    with a k(3) show ?thesis by simp
  next
    assume "\<exists>err. node_raises specs (uops ! k) err \<and> fst (verify_from e specs uops 0 uops) = Inl err"
    then obtain err where "node_raises specs (uops ! k) err"
      "fst (verify_from e specs uops 0 uops) = Inl err" by blast
    with r have "node_raises specs (uops ! k) (verification_failed i (uops ! i))" by simp
    with nf k(1) show ?thesis by blast
  qed
qed

subsection \<open>The rules of shapes\<close>

lemma verify_sink_dims_not_None: "verify_sink_dims sink \<noteq> Inr None"
  by (simp add: verify_sink_dims_def ret_def split: sum.splits)

lemma shape_sink:
  assumes "op sink = SINK" "\<forall>s\<in>set (src sink). op s = STORE"
  shows "rewrite shape_spec sink = (verify_sink_dims sink, [])"
proof -
  have m: "match_repeat (UPat_op [STORE]) (src sink) s = Some s" for s
    using assms(2) by (simp add: UPat_op_def match_repeat_plain list_all_iff)
  show ?thesis
  proof (cases "verify_sink_dims sink")
    case (Inl err)
    with assms(1) m show ?thesis
      by (simp add: shape_spec_def match_node_def bind_name_def fxn1_def kwargs_ok_def)
  next
    case (Inr r)
    with verify_sink_dims_not_None[of sink] obtain b where "r = Some b" by (cases r) auto
    with Inr assms(1) m show ?thesis
      by (simp add: shape_spec_def match_node_def bind_name_def fxn1_def kwargs_ok_def)
  qed
qed

lemma shape_other:
  assumes "op u \<noteq> SINK"
  shows "rewrite shape_spec u = (ret (all_same (shapes_of (src u))), [])"
  using assms
  by (simp add: shape_spec_def match_node_def bind_name_def fxn1_def kwargs_ok_def
      set_ops_minus set_GroupOp_All ret_def)

lemma spec_BUFFER: "filter (for_op BUFFER) (spec e) = []"
  by (simp add: spec_def for_op_def UPat_op_def GroupOp_ALU_def)

lemma spec_no_rule:
  assumes "x \<in> {DEVICE, UNIQUE, KERNEL}"
  shows "filter (for_op x) (spec e) = []"
  using assms by (auto simp add: spec_def for_op_def UPat_op_def GroupOp_ALU_def)

lemma st_arg_sizes_unshaped:
  assumes "\<forall>s\<in>set xs. op s = STORE" "\<exists>s\<in>set xs. st s = None"
  shows "st_arg_sizes xs = Inl AssertionError"
  using assms
proof (induction xs)
  case Nil
  then show ?case by simp
next
  case (Cons x xs)
  show ?case
  proof (cases "st x")
    case None
    then show ?thesis by (simp add: st_arg_def)
  next
    case (Some t)
    with Cons.prems have "\<exists>s\<in>set xs. st s = None" by auto
    with Cons have "st_arg_sizes xs = Inl AssertionError" by simp
    with Some Cons.prems(1) show ?thesis by (simp add: st_arg_def GroupOp_Buffer_def)
  qed
qed

lemma toposort_self: "u \<in> set (toposort u)"
  by (cases u) (simp add: set_dedup)

lemma toposort_src: "s \<in> set (src u) \<Longrightarrow> set (toposort s) \<subseteq> set (toposort u)"
  by (cases u) (auto simp add: set_dedup)


lemma spec_IDIV: "filter (for_op IDIV) (spec e) =
   [(UPat (Some [IDIV, MOD]) None SrcNone (Some ''x'') False,
        fxn1 ''x'' (\<lambda>x. if is_int (dtype x) then ret_None else ret False)),
     (UPat (Some GroupOp_ALU) None SrcNone (Some ''x'') False,
        fxn1 ''x'' (\<lambda>x. ret (list_all (\<lambda>y. base (dtype x) = base (dtype y)) (src x))))]"
  by (simp add: spec_def for_op_def UPat_op_def GroupOp_ALU_def)

text \<open>
  The check of a sink, on a SINK with STORE sources that have a shape: what
  \<^verbatim>\<open>verify_sink_dims\<close> computes. The columns of \<^verbatim>\<open>zip\<close> end with the shortest shape, and the
  test \<^verbatim>\<open>x[0] == 1\<close> is on the smaller of two sizes.
\<close>

lemma shape_sink_char:
  assumes a: "op sink = SINK" and ne: "src sink \<noteq> []"
    and b: "\<forall>s\<in>set (src sink). op s = STORE \<and> st s \<noteq> None"
  shows "rewrite shape_spec sink =
        (ret ((\<forall>x\<in>set (src sink). \<forall>y\<in>set (src sink). \<forall>a b.
                  st x = Some a \<and> st y = Some b \<longrightarrow> st_size a = st_size b)
              \<and> (\<forall>i. (\<exists>x\<in>set (toposort sink). op x \<noteq> SINK \<and> st x \<noteq> None) \<longrightarrow>
                     (\<forall>x\<in>set (toposort sink). \<forall>t.
                         op x \<noteq> SINK \<and> st x = Some t \<longrightarrow> i < length (st_shape t)) \<longrightarrow>
                     (let S = {st_shape t ! i | x t.
                                 x \<in> set (toposort sink) \<and> op x \<noteq> SINK \<and> st x = Some t}
                      in card S = 1 \<or> (card S = 2 \<and> Min S = 1)))), [])"
proof -
  from b have stores: "\<forall>s\<in>set (src sink). op s = STORE" and shp: "\<forall>s\<in>set (src sink). st s \<noteq> None"
    by blast+
  have sz: "st_arg_sizes (src sink) = Inr (map (\<lambda>s. st_size (the (st s))) (src sink))"
    using b by (rule st_arg_sizes_stores)
  have "rewrite shape_spec sink = (verify_sink_dims sink, [])"
    using a stores by (rule shape_sink)
  then show ?thesis
    unfolding verify_sink_dims_def sz
    by (simp only: sum.case all_same_sizes[OF shp] shape_dims_ok)
qed

text \<open>
  Where the shapes of the nodes have one length \<open>n\<close> and no size below 1, the check of a sink
  is the one of the comment of \<^verbatim>\<open>shape_spec\<close>, "shapes must have either 1 or n in each
  dimension": at every index the sizes are one size, or two sizes of which one is 1.
\<close>

lemma shape_sink_regular:
  assumes a: "op sink = SINK" and ne: "src sink \<noteq> []"
    and b: "\<forall>s\<in>set (src sink). op s = STORE \<and> st s \<noteq> None"
    and reg: "\<forall>x\<in>set (toposort sink). \<forall>t. op x \<noteq> SINK \<and> st x = Some t \<longrightarrow>
                length (st_shape t) = n \<and> (\<forall>d\<in>set (st_shape t). 1 \<le> d)"
  shows "rewrite shape_spec sink =
        (ret ((\<forall>x\<in>set (src sink). \<forall>y\<in>set (src sink). \<forall>a b.
                  st x = Some a \<and> st y = Some b \<longrightarrow> st_size a = st_size b)
              \<and> (\<forall>i<n. let S = {st_shape t ! i | x t.
                                 x \<in> set (toposort sink) \<and> op x \<noteq> SINK \<and> st x = Some t}
                        in card S = 1 \<or> (card S = 2 \<and> 1 \<in> S))), [])"
proof -
  define S where "S i = {st_shape t ! i | x t.
      x \<in> set (toposort sink) \<and> op x \<noteq> SINK \<and> st x = Some t}" for i
  from ne obtain s0 where s0: "s0 \<in> set (src sink)" by (cases "src sink") auto
  with b obtain t0 where t0: "op s0 = STORE" "st s0 = Some t0" by auto
  have in0: "s0 \<in> set (toposort sink)"
    using toposort_src[OF s0] toposort_self[of s0] by blast
  have ex: "\<exists>x\<in>set (toposort sink). op x \<noteq> SINK \<and> st x \<noteq> None"
    using in0 t0 by (intro bexI[of _ s0]) simp_all
  have rank: "(\<forall>x\<in>set (toposort sink). \<forall>t.
       op x \<noteq> SINK \<and> st x = Some t \<longrightarrow> i < length (st_shape t)) \<longleftrightarrow> i < n" for i
  proof
    assume "\<forall>x\<in>set (toposort sink). \<forall>t. op x \<noteq> SINK \<and> st x = Some t \<longrightarrow> i < length (st_shape t)"
    with in0 t0 have "i < length (st_shape t0)" by auto
    moreover from reg in0 t0 have "length (st_shape t0) = n" by auto
    ultimately show "i < n" by simp
  next
    assume "i < n"
    with reg show "\<forall>x\<in>set (toposort sink). \<forall>t.
        op x \<noteq> SINK \<and> st x = Some t \<longrightarrow> i < length (st_shape t)" by auto
  qed
  have ge: "1 \<le> d" if "i < n" "d \<in> S i" for i d
  proof -
    from that(2) obtain x t where x: "x \<in> set (toposort sink)" "op x \<noteq> SINK" "st x = Some t"
        "d = st_shape t ! i" unfolding S_def by blast
    with reg have "length (st_shape t) = n" "\<forall>d\<in>set (st_shape t). 1 \<le> d" by blast+
    with that(1) x(4) show ?thesis by simp
  qed
  have mn: "Min (S i) = 1 \<longleftrightarrow> 1 \<in> S i" if i: "i < n" and c: "card (S i) = 2" for i
  proof -
    from c have fin: "finite (S i)" and nemp: "S i \<noteq> {}"
      using card_ge_0_finite[of "S i"] by auto
    show ?thesis
    proof
      assume "Min (S i) = 1"
      with Min_in[OF fin nemp] show "1 \<in> S i" by simp
    next
      assume one: "1 \<in> S i"
      then have "Min (S i) \<le> 1" using fin by (rule_tac Min_le)
      moreover have "1 \<le> Min (S i)" using ge[OF i Min_in[OF fin nemp]] .
      ultimately show "Min (S i) = 1" by simp
    qed
  qed
  have "(\<forall>i. (\<exists>x\<in>set (toposort sink). op x \<noteq> SINK \<and> st x \<noteq> None) \<longrightarrow>
            (\<forall>x\<in>set (toposort sink). \<forall>t.
                op x \<noteq> SINK \<and> st x = Some t \<longrightarrow> i < length (st_shape t)) \<longrightarrow>
            (let S = {st_shape t ! i | x t.
                        x \<in> set (toposort sink) \<and> op x \<noteq> SINK \<and> st x = Some t}
             in card S = 1 \<or> (card S = 2 \<and> Min S = 1)))
      \<longleftrightarrow> (\<forall>i<n. let S = {st_shape t ! i | x t.
                        x \<in> set (toposort sink) \<and> op x \<noteq> SINK \<and> st x = Some t}
               in card S = 1 \<or> (card S = 2 \<and> 1 \<in> S))"
    unfolding Let_def S_def[symmetric] rank using ex mn by auto
  with shape_sink_char[OF a ne b] show ?thesis by simp
qed

section \<open>The properties of the rule sets and of the driver\<close>

subsection \<open>The driver\<close>

text \<open>
  C1, as amended. Let the rule sets be \<^verbatim>\<open>spec\<close> and any further ones. \<^verbatim>\<open>type_verify\<close> goes
  through the nodes in order and stops at the first node on which a predicate of a rule
  set raises an error of its own or which fails: which is rejected by at least one rule
  set or gets abstain from every rule set. For every position i of the list:

  \<^item> if i is the first position whose node fails and no predicate raises on the nodes of
    the positions 0 to i, then \<^verbatim>\<open>type_verify\<close> raises the error of position i, which holds
    the position of the node, its operator, its value type, the number and the operators
    of its sources, and its argument; the nodes after position i play no part;
  \<^item> conversely, if \<^verbatim>\<open>type_verify\<close> raises the error of position i, and no predicate
    raises an error equal to it, then i is the first position whose node fails, and no
    predicate raises on the nodes of the positions 0 to i;
  \<^item> if a predicate raises an error on the node of position i, and the nodes before it
    pass, then this error leaves \<^verbatim>\<open>type_verify\<close>: the error of the first rule set, in the
    order of the rule sets, whose predicate raises there.

  \<^verbatim>\<open>type_verify\<close> returns normally if and only if no predicate raises on a node of the list
  and no node fails.
\<close>

theorem type_verify_first_failure:
  "(\<forall>i<length uops.
      ((\<forall>j\<le>i. node_quiet (spec e # extra_specs) (uops ! j))
         \<and> node_fails (spec e # extra_specs) (uops ! i)
         \<and> (\<forall>j<i. \<not> node_fails (spec e # extra_specs) (uops ! j))
       \<longrightarrow> fst (type_verify e uops extra_specs) = Inl (verification_failed i (uops ! i)))
    \<and> (fst (type_verify e uops extra_specs) = Inl (verification_failed i (uops ! i))
         \<and> (\<forall>j<length uops.
               \<not> node_raises (spec e # extra_specs) (uops ! j) (verification_failed i (uops ! i)))
       \<longrightarrow> (\<forall>j\<le>i. node_quiet (spec e # extra_specs) (uops ! j))
            \<and> node_fails (spec e # extra_specs) (uops ! i)
            \<and> (\<forall>j<i. \<not> node_fails (spec e # extra_specs) (uops ! j)))
    \<and> (\<forall>err. node_raises (spec e # extra_specs) (uops ! i) err
               \<and> (\<forall>j<i. node_passes (spec e # extra_specs) (uops ! j))
       \<longrightarrow> fst (type_verify e uops extra_specs) = Inl err))
   \<and> (fst (type_verify e uops extra_specs) = Inr ()
       \<longleftrightarrow> (\<forall>i<length uops. node_passes (spec e # extra_specs) (uops ! i)))"
proof -
  let ?S = "spec e # extra_specs"
  let ?R = "fst (verify_from e ?S uops 0 uops)"
  let ?first = "\<lambda>i. (\<forall>j\<le>i. node_quiet ?S (uops ! j)) \<and> node_fails ?S (uops ! i)
                   \<and> (\<forall>j<i. \<not> node_fails ?S (uops ! j))"
  have eq: "?first i \<longleftrightarrow> node_quiet ?S (uops ! i) \<and> node_fails ?S (uops ! i)
                \<and> (\<forall>j<i. node_passes ?S (uops ! j))" for i
    unfolding node_passes_def using le_less by auto
  have A: "?R = Inl (verification_failed i (uops ! i))" if "i < length uops" "?first i" for i
  proof -
    from that(2) have "node_quiet ?S (uops ! i)" "node_fails ?S (uops ! i)"
        "\<forall>j<i. node_passes ?S (uops ! j)"
      unfolding eq by blast+
    with that(1) show ?thesis by (intro verify_from_fail)
  qed
  have B: "?first i" if "?R = Inl (verification_failed i (uops ! i))"
      "\<forall>j<length uops. \<not> node_raises ?S (uops ! j) (verification_failed i (uops ! i))" for i
    unfolding eq using that by (rule verify_from_failed)
  have C: "?R = Inl err" if "i < length uops" "node_raises ?S (uops ! i) err"
      "\<forall>j<i. node_passes ?S (uops ! j)" for i err
    using that(1,3,2) by (rule verify_from_raise)
  have D: "?R = Inr () \<longleftrightarrow> (\<forall>i<length uops. node_passes ?S (uops ! i))"
    using verify_from_normal[of e ?S uops] verify_from_pass[of uops ?S e] by blast
  have E: "\<forall>i<length uops.
      (?first i \<longrightarrow> ?R = Inl (verification_failed i (uops ! i)))
    \<and> (?R = Inl (verification_failed i (uops ! i))
         \<and> (\<forall>j<length uops. \<not> node_raises ?S (uops ! j) (verification_failed i (uops ! i)))
       \<longrightarrow> ?first i)
    \<and> (\<forall>err. node_raises ?S (uops ! i) err \<and> (\<forall>j<i. node_passes ?S (uops ! j))
       \<longrightarrow> ?R = Inl err)"
  proof (intro allI impI)
    fix i assume i: "i < length uops"
    from A[OF i] have 1: "?first i \<longrightarrow> ?R = Inl (verification_failed i (uops ! i))" by blast
    from B[of i] have 2: "?R = Inl (verification_failed i (uops ! i))
         \<and> (\<forall>j<length uops. \<not> node_raises ?S (uops ! j) (verification_failed i (uops ! i)))
       \<longrightarrow> ?first i" by blast
    from C[OF i] have 3: "\<forall>err. node_raises ?S (uops ! i) err \<and> (\<forall>j<i. node_passes ?S (uops ! j))
       \<longrightarrow> ?R = Inl err" by blast
    from 1 2 3 show "(?first i \<longrightarrow> ?R = Inl (verification_failed i (uops ! i)))
    \<and> (?R = Inl (verification_failed i (uops ! i))
         \<and> (\<forall>j<length uops. \<not> node_raises ?S (uops ! j) (verification_failed i (uops ! i)))
       \<longrightarrow> ?first i)
    \<and> (\<forall>err. node_raises ?S (uops ! i) err \<and> (\<forall>j<i. node_passes ?S (uops ! j))
       \<longrightarrow> ?R = Inl err)" by (intro conjI)
  qed
  from E D show ?thesis unfolding type_verify_def by (rule conjI)
qed

text \<open>
  The theorem on four lists. An integer division of floats, which \<^verbatim>\<open>spec\<close> rejects, before
  a kernel whose descriptor ends with an ADD, under the rule set of assignments and
  kernels: the error of position 0, although a predicate raises on the node after it. A
  device before that kernel, under the rule sets of buffers and of assignments and
  kernels: the error of \<^verbatim>\<open>validate_kernel\<close> leaves \<^verbatim>\<open>type_verify\<close>. A device, a unique
  identifier and a buffer of them, under the rule set of buffers, which pass; and the same
  with a string for the argument of the buffer: the error of position 2, and from this
  error, that the two nodes before it pass.
\<close>

theorem type_verify_first_failure_witness:
  "fst (type_verify env0 [ex_idiv_float, ex_kernel_add] [assign_spec])
       = Inl (VerificationFailed 0 IDIV dtypes_float 0 [] ANone)
   \<and> fst (type_verify env0 [ex_device, ex_kernel_add] [buffer_spec, assign_spec])
       = Inl (MustEndWith (AKernel (node ADD dtypes_float [] ANone)))
   \<and> fst (type_verify env0 [ex_device, ex_unique, ex_buffer (AInt 4)] [buffer_spec]) = Inr ()
   \<and> fst (type_verify env0 [ex_device, ex_unique, ex_buffer (AStr ''four'')] [buffer_spec])
       = Inl (VerificationFailed 2 BUFFER dtypes_float 2 [DEVICE, UNIQUE] (AStr ''four''))
   \<and> list_all (node_passes [spec env0, buffer_spec]) [ex_device, ex_unique]"
proof -
  have s: "rewrite (spec env0) ex_device = (Inr None, [])"
      "rewrite (spec env0) ex_unique = (Inr None, [])"
      "rewrite (spec env0) (ex_buffer a) = (Inr None, [])"
      "rewrite (spec env0) ex_kernel_add = (Inr None, [])" for a
    using rewrite_filter[of "spec env0" ex_device] rewrite_filter[of "spec env0" ex_unique]
      rewrite_filter[of "spec env0" "ex_buffer a"] rewrite_filter[of "spec env0" ex_kernel_add]
    by (simp_all add: ex_device_def ex_unique_def ex_buffer_def ex_kernel_add_def node_def
        spec_no_rule spec_BUFFER)
  have d: "rewrite (spec env0) ex_idiv_float = (ret False, [])"
    using rewrite_filter[of "spec env0" ex_idiv_float]
    by (simp add: ex_idiv_float_def node_def spec_IDIV pat_defs fxn_defs dtypes_float_def
        dtypes_ints_def)
  have b: "rewrite buffer_spec ex_device = (ret True, [])"
      "rewrite buffer_spec ex_unique = (ret True, [])"
    by (simp_all add: buffer_spec_def ex_device_def ex_unique_def node_def pat_defs fxn_defs
        dtypes_void_def)
  have c: "rewrite buffer_spec (ex_buffer a) = (ret (isinstance_int a), [])" for a
    using buffer_ok[of "ex_buffer a"]
    by (simp add: ex_buffer_def ex_device_def ex_unique_def node_def)
  have bk: "rewrite buffer_spec ex_kernel_add = (Inr None, [])"
    by (rule buffer_spec_other) (simp add: ex_kernel_add_def node_def)
  have ad: "rewrite assign_spec ex_idiv_float = (Inr None, [])"
      "rewrite assign_spec ex_device = (Inr None, [])"
    by (rule assign_spec_other, simp add: ex_idiv_float_def ex_device_def node_def)+
  have "rewrite assign_spec ex_kernel_add = (validate_kernel ex_kernel_add, [])"
    by (rule kernel_rule) (simp_all add: ex_kernel_add_def ex_buffer_def node_def)
  then have a: "rewrite assign_spec ex_kernel_add
      = (Inl (MustEndWith (AKernel (node ADD dtypes_float [] ANone))), [])"
    by (simp add: validate_kernel_def ex_kernel_add_def node_def)
  let ?S = "spec env0 # [buffer_spec]"
  let ?L0 = "[ex_idiv_float, ex_kernel_add]"
  let ?LK = "[ex_device, ex_kernel_add]"
  let ?L1 = "[ex_device, ex_unique, ex_buffer (AInt 4)]"
  let ?L2 = "[ex_device, ex_unique, ex_buffer (AStr ''four'')]"
  have p: "node_passes ?S ex_device" "node_passes ?S ex_unique"
      "node_passes ?S (ex_buffer (AInt 4))"
    by (simp_all add: node_passes_def node_quiet_def node_fails_def s b c ret_def)
  have q: "node_quiet ?S (ex_buffer (AStr ''four''))" "node_fails ?S (ex_buffer (AStr ''four''))"
    by (simp_all add: node_quiet_def node_fails_def s b c ret_def)
  have 0: "fst (type_verify env0 ?L0 [assign_spec]) = Inl (VerificationFailed 0 IDIV dtypes_float 0 [] ANone)"
  proof -
    have "(\<forall>j\<le>0. node_quiet (spec env0 # [assign_spec]) (?L0 ! j))
        \<and> node_fails (spec env0 # [assign_spec]) (?L0 ! 0)
        \<and> (\<forall>j<0. \<not> node_fails (spec env0 # [assign_spec]) (?L0 ! j))"
      by (simp add: node_quiet_def node_fails_def d ad ret_def)
    moreover have "0 < length ?L0" by simp
    ultimately have "fst (type_verify env0 ?L0 [assign_spec]) = Inl (verification_failed 0 (?L0 ! 0))"
      using type_verify_first_failure [of ?L0 env0 "[assign_spec]"] by blast
    then show ?thesis by (simp add: verification_failed_def ex_idiv_float_def node_def)
  qed
  have k: "fst (type_verify env0 ?LK [buffer_spec, assign_spec])
       = Inl (MustEndWith (AKernel (node ADD dtypes_float [] ANone)))"
  proof -
    let ?T = "spec env0 # [buffer_spec, assign_spec]"
    have r: "node_raises ?T (?LK ! 1) (MustEndWith (AKernel (node ADD dtypes_float [] ANone)))"
      by (simp add: node_raises_Cons s bk a)
    have "node_passes ?T ex_device"
      by (simp add: node_passes_def node_quiet_def node_fails_def s b ad ret_def)
    then have "\<forall>j<1. node_passes ?T (?LK ! j)" by simp
    moreover have "1 < length ?LK" by simp
    ultimately show ?thesis
      using r type_verify_first_failure [of ?LK env0 "[buffer_spec, assign_spec]"] by blast
  qed
  have n1: "\<forall>i<length ?L1. node_passes ?S (?L1 ! i)"
  proof (intro allI impI)
    fix i assume "i < length ?L1"
    then have "i = 0 \<or> i = 1 \<or> i = 2" by auto
    with p show "node_passes ?S (?L1 ! i)" by auto
  qed
  have 1: "fst (type_verify env0 ?L1 [buffer_spec]) = Inr ()"
    using type_verify_first_failure [of ?L1 env0 "[buffer_spec]"] n1 by blast
  have n2: "(\<forall>j\<le>2. node_quiet ?S (?L2 ! j)) \<and> node_fails ?S (?L2 ! 2)
       \<and> (\<forall>j<2. \<not> node_fails ?S (?L2 ! j))"
  proof (intro conjI allI impI)
    fix j :: nat assume "j \<le> 2"
    then have "j = 0 \<or> j = 1 \<or> j = 2" by auto
    with p q show "node_quiet ?S (?L2 ! j)" by (auto simp: node_passes_def)
  next
    show "node_fails ?S (?L2 ! 2)" using q by simp
  next
    fix j :: nat assume "j < 2"
    then have "j = 0 \<or> j = 1" by auto
    with p show "\<not> node_fails ?S (?L2 ! j)" by (auto simp: node_passes_def)
  qed
  have l2: "2 < length ?L2" by simp
  from type_verify_first_failure [of ?L2 env0 "[buffer_spec]"] n2 l2
  have r2: "fst (type_verify env0 ?L2 [buffer_spec]) = Inl (verification_failed 2 (?L2 ! 2))"
    by blast
  then have 2: "fst (type_verify env0 ?L2 [buffer_spec])
       = Inl (VerificationFailed 2 BUFFER dtypes_float 2 [DEVICE, UNIQUE] (AStr ''four''))"
    by (simp add: verification_failed_def ex_buffer_def ex_device_def ex_unique_def node_def)
  have qs: "node_quiet ?S ex_device" "node_quiet ?S ex_unique"
    using p by (simp_all add: node_passes_def)
  have nf: "\<forall>j<length ?L2. \<not> node_raises ?S (?L2 ! j) (verification_failed 2 (?L2 ! 2))"
  proof (intro allI impI)
    fix j assume "j < length ?L2"
    then have "j = 0 \<or> j = 1 \<or> j = 2" by auto
    with quiet_not_raises[OF qs(1)] quiet_not_raises[OF qs(2)] quiet_not_raises[OF q(1)]
    show "\<not> node_raises ?S (?L2 ! j) (verification_failed 2 (?L2 ! 2))" by auto
  qed
  from type_verify_first_failure [of ?L2 env0 "[buffer_spec]"] r2 nf l2
  have "(\<forall>j\<le>2. node_quiet ?S (?L2 ! j)) \<and> (\<forall>j<2. \<not> node_fails ?S (?L2 ! j))"
    by blast
  then have a1: "\<forall>j\<le>2. node_quiet ?S (?L2 ! j)" and a2: "\<forall>j<2. \<not> node_fails ?S (?L2 ! j)"
    by blast+
  have "node_passes ?S (?L2 ! 0) \<and> node_passes ?S (?L2 ! 1)"
    using a1[rule_format, of 0] a1[rule_format, of 1] a2[rule_format, of 0] a2[rule_format, of 1]
    by (simp add: node_passes_def)
  then have 3: "list_all (node_passes [spec env0, buffer_spec]) [ex_device, ex_unique]"
    by simp
  from 0 k 1 2 3 show ?thesis by simp
qed

text \<open>
  With the rule set of assignments and kernels active, the list of one kernel whose
  descriptor ends with an ADD: \<^verbatim>\<open>spec\<close> abstains, no rule set rejects the node and not
  every rule set abstains, and \<^verbatim>\<open>type_verify\<close> does not return normally: the assertion of
  \<^verbatim>\<open>validate_kernel\<close> leaves it.
\<close>

theorem type_verify_assertion_counterexample:
  "\<not> node_fails [spec env0, assign_spec] ex_kernel_add
   \<and> fst (rewrite (spec env0) ex_kernel_add) = Inr None
   \<and> fst (type_verify env0 [ex_kernel_add] [assign_spec])
       = Inl (MustEndWith (AKernel (node ADD dtypes_float [] ANone)))"
proof -
  have s: "rewrite (spec env0) ex_kernel_add = (Inr None, [])"
    using rewrite_filter[of "spec env0" ex_kernel_add]
    by (simp add: ex_kernel_add_def node_def spec_no_rule)
  have "rewrite assign_spec ex_kernel_add = (validate_kernel ex_kernel_add, [])"
    by (rule kernel_rule) (simp_all add: ex_kernel_add_def ex_buffer_def node_def)
  then have a: "rewrite assign_spec ex_kernel_add
      = (Inl (MustEndWith (AKernel (node ADD dtypes_float [] ANone))), [])"
    by (simp add: validate_kernel_def ex_kernel_add_def node_def)
  have f: "\<not> node_fails [spec env0, assign_spec] ex_kernel_add"
    by (simp add: node_fails_def s a)
  have t: "fst (type_verify env0 [ex_kernel_add] [assign_spec])
       = Inl (MustEndWith (AKernel (node ADD dtypes_float [] ANone)))"
    by (simp add: type_verify_def s a)
  from f s t show ?thesis by simp
qed

subsection \<open>Kernels\<close>

text \<open>
  C2. A KERNEL node that the rule set of assignments and kernels matches (every source a
  BUFFER, BUFFER_VIEW or ASSIGN) and that carries a kernel descriptor: when the root
  operation of the descriptor is none of COPY, BUFFER_VIEW and SINK, or it is SINK and a
  source of that SINK is no STORE, \<^verbatim>\<open>validate_kernel\<close> ends with a failed assertion, an error
  and not the result reject, and so does the rule set; otherwise \<^verbatim>\<open>validate_kernel\<close> and the
  rule set accept the node.
\<close>

theorem validate_kernel_fatal:
  assumes "op k = KERNEL"
    and "\<forall>s\<in>set (src k). op s \<in> {BUFFER, BUFFER_VIEW, ASSIGN}"
    and "arg k = AKernel a"
  shows "validate_kernel k =
      (if op a \<notin> {COPY, BUFFER_VIEW, SINK} then Inl (MustEndWith (arg k))
       else if op a = SINK \<and> (\<exists>s\<in>set (src a). op s \<noteq> STORE) then Inl (SinkMustEndWithStore a)
       else ret True)
    \<and> rewrite assign_spec k = (validate_kernel k, [])"
proof -
  from assms(2) have "list_all (\<lambda>s. op s \<in> {BUFFER, BUFFER_VIEW, ASSIGN}) (src k)"
    by (simp add: list_all_iff)
  with assms(1) have "rewrite assign_spec k = (validate_kernel k, [])"
    by (rule kernel_rule)
  with validate_kernel_char[OF assms(3)] show ?thesis by simp
qed

text \<open>
  The theorem on three kernels over a buffer: one whose descriptor ends with an ADD, one
  that ends with a SINK of an ADD, and one that ends with a SINK of a STORE.
\<close>

theorem validate_kernel_fatal_witness:
  "rewrite assign_spec (node KERNEL dtypes_void [ex_buffer (AInt 4)] (AKernel (node ADD dtypes_float [] ANone)))
     = (Inl (MustEndWith (AKernel (node ADD dtypes_float [] ANone))), [])
   \<and> rewrite assign_spec (node KERNEL dtypes_void [ex_buffer (AInt 4)]
        (AKernel (node SINK dtypes_void [node ADD dtypes_float [] ANone] ANone)))
     = (Inl (SinkMustEndWithStore (node SINK dtypes_void [node ADD dtypes_float [] ANone] ANone)), [])
   \<and> rewrite assign_spec (node KERNEL dtypes_void [ex_buffer (AInt 4)]
        (AKernel (node SINK dtypes_void [node STORE dtypes_void [] ANone] ANone)))
     = (ret True, [])"
  using validate_kernel_fatal [of "node KERNEL dtypes_void [ex_buffer (AInt 4)] (AKernel (node ADD dtypes_float [] ANone))"
      "node ADD dtypes_float [] ANone"]
    validate_kernel_fatal [of "node KERNEL dtypes_void [ex_buffer (AInt 4)]
        (AKernel (node SINK dtypes_void [node ADD dtypes_float [] ANone] ANone))"
      "node SINK dtypes_void [node ADD dtypes_float [] ANone] ANone"]
    validate_kernel_fatal [of "node KERNEL dtypes_void [ex_buffer (AInt 4)]
        (AKernel (node SINK dtypes_void [node STORE dtypes_void [] ANone] ANone))"
      "node SINK dtypes_void [node STORE dtypes_void [] ANone] ANone"]
  by (simp add: node_def ex_buffer_def)

subsection \<open>The bounds check of an index\<close>

text \<open>
  C3, as amended. An INDEX node of two sources, a DEFINE_GLOBAL or DEFINE_LOCAL of a
  pointer type and an offset, whose own value type is no image type, with the override
  unset and every SPECIAL node it depends on carrying a tuple for its argument: if the
  nodes that the INDEX node depends on (those of the offset and those of the buffer
  operand) hold a DEFINE_VAR, a BITCAST, or a SPECIAL with a component after the first
  that is no integer, the node is accepted; otherwise it is rejected if and only if the
  declared element count is not -1 and the minimum of the offset is below 0 or its
  maximum is at least the count, and accepted if not. A rejection prints the line with
  the range, the bound and the offset expression when \<^verbatim>\<open>DEBUG\<close> is at least 1, and prints
  nothing below that level.
\<close>

theorem index_bounds_check:
  assumes "IGNORE_OOB e = 0"
    and "op idx = INDEX" and "src idx = [buf, off]"
    and "op buf \<in> {DEFINE_GLOBAL, DEFINE_LOCAL}"
    and "\<not> isinstance_ImageDType (dtype idx)"
    and "dtype_size (dtype buf) = Inr sz"
    and "\<forall>x\<in>set (toposort idx). op x = SPECIAL \<longrightarrow> isinstance_tuple (arg x)"
  shows "rewrite (spec e) idx =
    (if \<exists>x\<in>set (toposort idx). op x \<in> {DEFINE_VAR, BITCAST} \<or>
          (op x = SPECIAL \<and> (\<exists>ys. arg x = ATuple ys \<and> (\<exists>y\<in>set (tl ys). \<not> isinstance_int y)))
     then (ret True, [])
     else if sz \<noteq> -1 \<and> (vmin off < 0 \<or> sz \<le> vmax off)
       then (ret False,
             if 1 \<le> DEBUG e then [OutOfBoundsAccess (vmin off) (vmax off) sz off] else [])
     else (ret True, []))"
  using assms by (rule index_bounds)

text \<open>
  The theorem on indices into a buffer of ten elements: by an offset of the range 0 to 9,
  by an offset of the range 0 to 10 at the \<^verbatim>\<open>DEBUG\<close> levels 1 and 0, and by a variable of
  the range 0 to 20.
\<close>

theorem index_bounds_check_witness:
  "rewrite (spec env0) (ex_index 0 9) = (ret True, [])
   \<and> rewrite (spec env_debug) (ex_index 0 10)
       = (ret False, [OutOfBoundsAccess 0 10 10 (ex_offset 0 10)])
   \<and> rewrite (spec env0) (ex_index 0 10) = (ret False, [])
   \<and> rewrite (spec env0) ex_index_var = (ret True, [])"
  using index_bounds_check [of env0 "ex_index 0 9" ex_global "ex_offset 0 9" 10]
    index_bounds_check [of env_debug "ex_index 0 10" ex_global "ex_offset 0 10" 10]
    index_bounds_check [of env0 "ex_index 0 10" ex_global "ex_offset 0 10" 10]
    index_bounds_check [of env0 ex_index_var ex_global ex_var 10]
  by (simp add: ex_index_def ex_index_var_def ex_var_def ex_global_def ex_offset_def node_def
      env0_def env_debug_def dedup_def)

text \<open>
  At the \<^verbatim>\<open>DEBUG\<close> level 0 the index by an offset of the range 0 to 10 is rejected and
  nothing is printed. The index into a buffer whose definition depends on a variable is
  accepted, although the nodes of its offset hold no DEFINE_VAR, BITCAST or SPECIAL, the
  count is 10 and the maximum of the offset is 10.
\<close>

theorem index_bounds_counterexample:
  "rewrite (spec env0) (ex_index 0 10) = (ret False, [])
   \<and> list_all (\<lambda>x. op x \<notin> {DEFINE_VAR, BITCAST, SPECIAL}) (toposort (ex_offset 0 10))
   \<and> vmax (ex_offset 0 10) = 10
   \<and> dtype_size (dtype (hd (src ex_index_buf_var))) = Inr 10
   \<and> src ex_index_buf_var = [hd (src ex_index_buf_var), ex_offset 0 10]
   \<and> fst (rewrite (spec env0) ex_index_buf_var) = ret True"
proof -
  have 1: "rewrite (spec env0) (ex_index 0 10) = (ret False, [])"
    using index_bounds [of env0 "ex_index 0 10" ex_global "ex_offset 0 10" 10]
    by (simp add: ex_index_def ex_global_def ex_offset_def node_def env0_def dedup_def)
  have 2: "fst (rewrite (spec env0) ex_index_buf_var) = ret True"
    using index_bounds [of env0 ex_index_buf_var
        "node DEFINE_GLOBAL (PtrDType dtypes_float False 1 10) [ex_var] (AInt 0)" "ex_offset 0 10" 10]
    by (simp add: ex_index_buf_var_def ex_var_def ex_offset_def node_def env0_def dedup_def)
  from 1 2 show ?thesis
    by (simp add: ex_index_buf_var_def ex_offset_def node_def dedup_def)
qed

subsection \<open>Shapes\<close>

text \<open>
  C4. The statement asks, of a SINK whose sources are STORE nodes, that at every index the
  sizes of the nodes with a shape are one size, or two sizes of which one is 1, and that
  the sources have one total element count; the comment of \<^verbatim>\<open>shape_spec\<close> says the same,
  "shapes must have either 1 or n in each dimension". \<^verbatim>\<open>verify_sink_dims\<close> does so on the
  sink of a store of shape (3, 4) of a load of shape (1, 4), which it accepts, and not on
  two others. On the sink of a store of shape (1) of a load of shape (0), the sizes are 0
  and 1 and the one source has the element count 1, and the sink is rejected: the test
  \<^verbatim>\<open>x[0] == 1\<close> is on the smaller of the two sizes. On the sink of a store of shape (2) of a
  load of shape (2, 3) of a load of shape (2, 5), the sizes at the second index are 5 and
  3, and the sink is accepted: \<^verbatim>\<open>zip\<close> ends the columns with the shortest shape.
\<close>

theorem verify_sink_dims_failing_inputs:
  "fst (rewrite shape_spec ex_sink_broadcast) = ret True
   \<and> map op (src ex_sink_zero) = [STORE]
   \<and> map st_shape (List.map_filter st (toposort ex_sink_zero)) = [[0], [1]]
   \<and> map st_size (List.map_filter st (src ex_sink_zero)) = [1]
   \<and> fst (rewrite shape_spec ex_sink_zero) = ret False
   \<and> map op (src ex_sink_ranks) = [STORE]
   \<and> map st_shape (List.map_filter st (toposort ex_sink_ranks)) = [[2, 5], [2, 3], [2]]
   \<and> map st_size (List.map_filter st (src ex_sink_ranks)) = [2]
   \<and> fst (rewrite shape_spec ex_sink_ranks) = ret True"
proof -
  have "rewrite shape_spec ex_sink_zero = (verify_sink_dims ex_sink_zero, [])"
    by (rule shape_sink) (simp_all add: ex_sink_zero_def node_def shaped_def)
  then have 1: "fst (rewrite shape_spec ex_sink_zero) = ret False"
    by (simp add: ex_sink_zero_def node_def shaped_def dedup_def shape_dims_def shapes_of_def
        zip_star_def all_same_def st_arg_def GroupOp_Buffer_def verify_sink_dims_def)
  have "rewrite shape_spec ex_sink_ranks = (verify_sink_dims ex_sink_ranks, [])"
    by (rule shape_sink) (simp_all add: ex_sink_ranks_def node_def shaped_def)
  then have 2: "fst (rewrite shape_spec ex_sink_ranks) = ret True"
    by (simp add: ex_sink_ranks_def node_def shaped_def dedup_def shape_dims_def shapes_of_def
        zip_star_def all_same_def st_arg_def GroupOp_Buffer_def verify_sink_dims_def)
  have "rewrite shape_spec ex_sink_broadcast = (verify_sink_dims ex_sink_broadcast, [])"
    by (rule shape_sink) (simp_all add: ex_sink_broadcast_def node_def shaped_def)
  then have 0: "fst (rewrite shape_spec ex_sink_broadcast) = ret True"
    by (simp add: ex_sink_broadcast_def node_def shaped_def dedup_def shape_dims_def shapes_of_def
        zip_star_def all_same_def st_arg_def GroupOp_Buffer_def verify_sink_dims_def)
  from 0 1 2 show ?thesis
    by (simp add: ex_sink_zero_def ex_sink_ranks_def node_def shaped_def dedup_def)
qed

subsection \<open>Barriers\<close>

text \<open>
  C5, as amended. The rule set \<^verbatim>\<open>spec\<close> accepts a BARRIER node if and only if its value type
  is \<^verbatim>\<open>void\<close>, whatever its sources: the second rule of barriers puts no condition on
  them. A BARRIER of another value type gets no verdict (abstain).
\<close>

theorem barrier_accepted:
  assumes "op u = BARRIER"
  shows "(rewrite (spec e) u = (ret True, []) \<longleftrightarrow> dtype u = dtypes_void)
    \<and> (dtype u \<noteq> dtypes_void \<longrightarrow> rewrite (spec e) u = (Inr None, []))"
  using barrier[OF assms, of e] by (simp add: ret_def)

text \<open>
  The theorem on a barrier of type \<^verbatim>\<open>void\<close> after an ADD, which is accepted, and on a
  barrier of type \<^verbatim>\<open>float\<close> without sources, which is not.
\<close>

theorem barrier_accepted_witness:
  "rewrite (spec env0) (node BARRIER dtypes_void [node ADD dtypes_int [] ANone] ANone) = (ret True, [])
   \<and> rewrite (spec env0) (node BARRIER dtypes_float [] ANone) = (Inr None, [])"
  using barrier_accepted [of "node BARRIER dtypes_void [node ADD dtypes_int [] ANone] ANone" env0]
    barrier_accepted [of "node BARRIER dtypes_float [] ANone" env0]
  by (simp add: node_def dtypes_void_def dtypes_float_def)

text \<open>
  A barrier whose one source is an ADD, no STORE, is accepted; a barrier without sources
  is not accepted when its value type is not \<^verbatim>\<open>void\<close>.
\<close>

theorem barrier_counterexample:
  "\<not> (\<forall>s\<in>set (src (node BARRIER dtypes_void [node ADD dtypes_int [] ANone] ANone)). op s = STORE)
   \<and> fst (rewrite (spec env0) (node BARRIER dtypes_void [node ADD dtypes_int [] ANone] ANone)) = ret True
   \<and> src (node BARRIER dtypes_float [] ANone) = []
   \<and> fst (rewrite (spec env0) (node BARRIER dtypes_float [] ANone)) \<noteq> ret True"
  using barrier [of "node BARRIER dtypes_void [node ADD dtypes_int [] ANone] ANone" env0]
    barrier [of "node BARRIER dtypes_float [] ANone" env0]
  by (simp add: node_def dtypes_void_def dtypes_float_def ret_def)

subsection \<open>The schedule graph\<close>

text \<open>
  C6, as amended. Under \<^verbatim>\<open>sched_spec\<close> a node of any operator other than UNIQUE, DEVICE,
  BUFFER, BUFFER_VIEW, KERNEL, ASSIGN and SINK is rejected; a SINK node is not rejected:
  it gets no verdict (abstain), the last rule being for every operator but SINK. A node
  that is accepted is a UNIQUE, DEVICE, BUFFER, BUFFER_VIEW, KERNEL or ASSIGN node, and
  no node other than a SINK is left without a verdict.
\<close>

theorem sched_spec_restriction:
  "(op u \<notin> {UNIQUE, DEVICE, BUFFER, BUFFER_VIEW, KERNEL, ASSIGN, SINK}
      \<longrightarrow> rewrite sched_spec u = (ret False, []))
   \<and> (op u = SINK \<longrightarrow> rewrite sched_spec u = (Inr None, []))
   \<and> (fst (rewrite sched_spec u) = ret True
      \<longrightarrow> op u \<in> {UNIQUE, DEVICE, BUFFER, BUFFER_VIEW, KERNEL, ASSIGN})
   \<and> (op u \<noteq> SINK \<longrightarrow> fst (rewrite sched_spec u) \<noteq> Inr None)"
proof -
  have 1: "op u \<notin> {UNIQUE, DEVICE, BUFFER, BUFFER_VIEW, KERNEL, ASSIGN, SINK}
      \<longrightarrow> rewrite sched_spec u = (ret False, [])"
    using sched_other[of u] by blast
  have 2: "op u = SINK \<longrightarrow> rewrite sched_spec u = (Inr None, [])"
    using sched_sink[of u] by blast
  have 3: "fst (rewrite sched_spec u) = ret True
      \<longrightarrow> op u \<in> {UNIQUE, DEVICE, BUFFER, BUFFER_VIEW, KERNEL, ASSIGN}"
  proof
    assume a: "fst (rewrite sched_spec u) = ret True"
    show "op u \<in> {UNIQUE, DEVICE, BUFFER, BUFFER_VIEW, KERNEL, ASSIGN}"
    proof (rule ccontr)
      assume n: "op u \<notin> {UNIQUE, DEVICE, BUFFER, BUFFER_VIEW, KERNEL, ASSIGN}"
      show False
      proof (cases "op u = SINK")
        case True
        with 2 a show False by (simp add: ret_def)
      next
        case False
        with n 1 a show False by (simp add: ret_def)
      qed
    qed
  qed
  have 4: "op u \<noteq> SINK \<longrightarrow> fst (rewrite sched_spec u) \<noteq> Inr None"
    unfolding sched_general[of u]
    by (auto simp: ret_def split: prod.splits sum.splits option.splits)
  from 1 2 3 4 show ?thesis by blast
qed

text \<open>The theorem on an ADD node, which is rejected, on a SINK node and on a buffer.\<close>

theorem sched_spec_restriction_witness:
  "rewrite sched_spec (node ADD dtypes_int [] ANone) = (ret False, [])
   \<and> rewrite sched_spec (node SINK dtypes_void [] ANone) = (Inr None, [])
   \<and> fst (rewrite sched_spec (ex_buffer (AInt 4))) \<noteq> Inr None"
  using sched_spec_restriction [of "node ADD dtypes_int [] ANone"]
    sched_spec_restriction [of "node SINK dtypes_void [] ANone"]
    sched_spec_restriction [of "ex_buffer (AInt 4)"]
  by (simp add: node_def ex_buffer_def)

text \<open>A SINK node is outside the admitted operators and is not rejected.\<close>

theorem sched_spec_sink_counterexample:
  "op (node SINK dtypes_void [] ANone) \<notin> {UNIQUE, DEVICE, BUFFER, BUFFER_VIEW, KERNEL, ASSIGN}
   \<and> fst (rewrite sched_spec (node SINK dtypes_void [] ANone)) \<noteq> ret False"
  using sched_sink [of "node SINK dtypes_void [] ANone"]
  by (simp add: node_def ret_def)

subsection \<open>Buffers\<close>

text \<open>
  C7, as amended. The rule set of buffers rejects a BUFFER node whose sources are a DEVICE
  and a UNIQUE node, in this order, and whose argument is no integer, and it rejects a
  BUFFER_VIEW node whose one source is a BUFFER and whose argument is not a tuple of two
  items that are integers or nodes. A BUFFER node with other sources, and a BUFFER_VIEW
  node with other sources, match no pattern of the rule set: whatever their argument, the
  result is abstain, not reject.
\<close>

theorem buffer_spec_verdict:
  "(op u = BUFFER \<and> map op (src u) = [DEVICE, UNIQUE] \<and> \<not> isinstance_int (arg u)
      \<longrightarrow> rewrite buffer_spec u = (ret False, []))
   \<and> (op u = BUFFER_VIEW \<and> map op (src u) = [BUFFER]
        \<and> (\<forall>xs. arg u = ATuple xs \<longrightarrow>
              length xs \<noteq> 2 \<or> (\<exists>a\<in>set xs. \<not> isinstance_int a \<and> \<not> isinstance_UOp a))
      \<longrightarrow> rewrite buffer_spec u = (ret False, []))
   \<and> (op u = BUFFER \<and> map op (src u) \<noteq> [DEVICE, UNIQUE]
      \<longrightarrow> rewrite buffer_spec u = (Inr None, []))
   \<and> (op u = BUFFER_VIEW \<and> map op (src u) \<noteq> [BUFFER]
      \<longrightarrow> rewrite buffer_spec u = (Inr None, []))"
proof -
  have 1: "op u = BUFFER \<and> map op (src u) = [DEVICE, UNIQUE] \<and> \<not> isinstance_int (arg u)
      \<longrightarrow> rewrite buffer_spec u = (ret False, [])"
    using buffer_ok[of u] by simp
  have 2: "op u = BUFFER_VIEW \<and> map op (src u) = [BUFFER]
        \<and> (\<forall>xs. arg u = ATuple xs \<longrightarrow>
              length xs \<noteq> 2 \<or> (\<exists>a\<in>set xs. \<not> isinstance_int a \<and> \<not> isinstance_UOp a))
      \<longrightarrow> rewrite buffer_spec u = (ret False, [])"
  proof
    assume a: "op u = BUFFER_VIEW \<and> map op (src u) = [BUFFER]
        \<and> (\<forall>xs. arg u = ATuple xs \<longrightarrow>
              length xs \<noteq> 2 \<or> (\<exists>a\<in>set xs. \<not> isinstance_int a \<and> \<not> isinstance_UOp a))"
    then have "\<not> (case arg u of
        ATuple xs \<Rightarrow> length xs = 2 \<and> list_all (\<lambda>a. isinstance_int a \<or> isinstance_UOp a) xs
      | _ \<Rightarrow> False)"
      by (cases "arg u") (auto simp: list_all_iff)
    with a bv_ok[of u] show "rewrite buffer_spec u = (ret False, [])" by simp
  qed
  have 3: "op u = BUFFER \<and> map op (src u) \<noteq> [DEVICE, UNIQUE]
      \<longrightarrow> rewrite buffer_spec u = (Inr None, [])"
    using buffer_abstain[of u] by blast
  have 4: "op u = BUFFER_VIEW \<and> map op (src u) \<noteq> [BUFFER]
      \<longrightarrow> rewrite buffer_spec u = (Inr None, [])"
    using bv_abstain[of u] by blast
  from 1 2 3 4 show ?thesis by blast
qed

text \<open>
  The theorem on a buffer with a string for its argument, on a view of a buffer with a
  tuple of one item, and on the same two nodes without their sources.
\<close>

theorem buffer_spec_verdict_witness:
  "rewrite buffer_spec (ex_buffer (AStr ''four'')) = (ret False, [])
   \<and> rewrite buffer_spec (node BUFFER_VIEW dtypes_float [ex_buffer (AInt 4)] (ATuple [AInt 1]))
       = (ret False, [])
   \<and> rewrite buffer_spec (node BUFFER dtypes_float [] (AStr ''four'')) = (Inr None, [])
   \<and> rewrite buffer_spec (node BUFFER_VIEW dtypes_float [] (ATuple [AInt 1])) = (Inr None, [])"
  using buffer_spec_verdict [of "ex_buffer (AStr ''four'')"]
    buffer_spec_verdict [of "node BUFFER_VIEW dtypes_float [ex_buffer (AInt 4)] (ATuple [AInt 1])"]
    buffer_spec_verdict [of "node BUFFER dtypes_float [] (AStr ''four'')"]
    buffer_spec_verdict [of "node BUFFER_VIEW dtypes_float [] (ATuple [AInt 1])"]
  by (simp add: node_def ex_buffer_def ex_device_def ex_unique_def)

text \<open>
  A buffer without sources and with a string for its argument, and a view without sources
  and with a tuple of one item for its argument, are not rejected by the rule set: it
  abstains. With the rule sets of buffers and of shapes active, \<^verbatim>\<open>type_verify\<close> returns
  normally on that buffer.
\<close>

theorem buffer_spec_abstain_counterexample:
  "\<not> isinstance_int (arg (node BUFFER dtypes_float [] (AStr ''four'')))
   \<and> fst (rewrite buffer_spec (node BUFFER dtypes_float [] (AStr ''four''))) = Inr None
   \<and> fst (rewrite buffer_spec (node BUFFER_VIEW dtypes_float [] (ATuple [AInt 1]))) = Inr None
   \<and> fst (type_verify env0 [node BUFFER dtypes_float [] (AStr ''four'')] [buffer_spec, shape_spec])
       = Inr ()"
proof -
  let ?b = "node BUFFER dtypes_float [] (AStr ''four'')"
  let ?v = "node BUFFER_VIEW dtypes_float [] (ATuple [AInt 1])"
  have b: "rewrite buffer_spec ?b = (Inr None, [])"
    by (rule buffer_abstain) (simp_all add: node_def)
  have v: "rewrite buffer_spec ?v = (Inr None, [])"
    by (rule bv_abstain) (simp_all add: node_def)
  have s: "rewrite (spec env0) ?b = (Inr None, [])"
    using rewrite_filter[of "spec env0" ?b] by (simp add: node_def spec_BUFFER)
  have h: "rewrite shape_spec ?b = (ret True, [])"
    using shape_other[of ?b] by (simp add: node_def shapes_of_def all_same_def)
  have "fst (type_verify env0 [?b] [buffer_spec, shape_spec]) = Inr ()"
    by (simp add: type_verify_def b s h ret_def)
  with b v show ?thesis by (simp add: node_def)
qed

subsection \<open>Shifts\<close>

text \<open>
  C8, as amended. The rule set \<^verbatim>\<open>spec\<close> accepts a SHL or SHR node of two sources if and only
  if its value type equals the value type of the left operand and the value type of the
  shift amount is that same type or is \<^verbatim>\<open>dtypes.uint\<close>, the unsigned integer of 32 bits;
  otherwise it rejects the node.
\<close>

theorem shift_rule:
  assumes "op u = SHL \<or> op u = SHR" and "src u = [x, y]"
  shows "(rewrite (spec e) u = (ret True, [])
            \<longleftrightarrow> dtype u = dtype x \<and> (dtype y = dtype x \<or> dtype y = dtypes_uint))
    \<and> (rewrite (spec e) u = (ret False, [])
            \<longleftrightarrow> \<not> (dtype u = dtype x \<and> (dtype y = dtype x \<or> dtype y = dtypes_uint)))"
  using shift[OF assms, of e] by (auto simp: ret_def)

text \<open>
  The theorem on the shifts of an \<^verbatim>\<open>int\<close> by an \<^verbatim>\<open>int\<close>, by a \<^verbatim>\<open>uint\<close> and by a
  \<^verbatim>\<open>uint8\<close>.
\<close>

theorem shift_rule_witness:
  "rewrite (spec env0) (node SHL dtypes_int [node ADD dtypes_int [] ANone, node ADD dtypes_int [] ANone] ANone)
     = (ret True, [])
   \<and> rewrite (spec env0) (node SHR dtypes_int [node ADD dtypes_int [] ANone, node ADD dtypes_uint [] ANone] ANone)
     = (ret True, [])
   \<and> rewrite (spec env0) (node SHL dtypes_int [node ADD dtypes_int [] ANone, node ADD dtypes_uint8 [] ANone] ANone)
     = (ret False, [])"
  using shift_rule [of "node SHL dtypes_int [node ADD dtypes_int [] ANone, node ADD dtypes_int [] ANone] ANone"
      "node ADD dtypes_int [] ANone" "node ADD dtypes_int [] ANone" env0]
    shift_rule [of "node SHR dtypes_int [node ADD dtypes_int [] ANone, node ADD dtypes_uint [] ANone] ANone"
      "node ADD dtypes_int [] ANone" "node ADD dtypes_uint [] ANone" env0]
    shift_rule [of "node SHL dtypes_int [node ADD dtypes_int [] ANone, node ADD dtypes_uint8 [] ANone] ANone"
      "node ADD dtypes_int [] ANone" "node ADD dtypes_uint8 [] ANone" env0]
  by (simp add: node_def dtypes_int_def dtypes_uint_def dtypes_uint8_def)

text \<open>
  A shift of an \<^verbatim>\<open>int\<close> by a \<^verbatim>\<open>uint8\<close>: the value type of the node is that of the left
  operand and the shift amount has an unsigned integer type, and the node is rejected.
\<close>

theorem shift_uint8_counterexample:
  "dtype (node SHL dtypes_int [node ADD dtypes_int [] ANone, node ADD dtypes_uint8 [] ANone] ANone)
     = dtype (node ADD dtypes_int [] ANone)
   \<and> is_unsigned (dtype (node ADD dtypes_uint8 [] ANone))
   \<and> fst (rewrite (spec env0)
        (node SHL dtypes_int [node ADD dtypes_int [] ANone, node ADD dtypes_uint8 [] ANone] ANone))
     = ret False"
  using shift [of "node SHL dtypes_int [node ADD dtypes_int [] ANone, node ADD dtypes_uint8 [] ANone] ANone"
      "node ADD dtypes_int [] ANone" "node ADD dtypes_uint8 [] ANone" env0]
  by (simp add: node_def dtypes_int_def dtypes_uint_def dtypes_uint8_def dtypes_uints_def)

subsection \<open>The override of the bounds check\<close>

text \<open>
  C9. When \<^verbatim>\<open>IGNORE_OOB\<close> is set, \<^verbatim>\<open>validate_index\<close> returns \<^verbatim>\<open>True\<close> on every node, with a
  mask or without, and prints nothing; the rule set \<^verbatim>\<open>spec\<close> then accepts every INDEX node
  that one of its two rules of indices matches, whatever the value range of the offset.
\<close>

theorem ignore_oob_accepts:
  assumes "IGNORE_OOB e \<noteq> 0"
  shows "validate_index e idx m = (ret True, [])
    \<and> (op idx = INDEX \<and> src idx = [b, off] \<and> op b \<in> {DEFINE_GLOBAL, DEFINE_LOCAL}
          \<longrightarrow> rewrite (spec e) idx = (ret True, []))
    \<and> (op idx = INDEX \<and> src idx = [b, off, m'] \<and> op b \<in> {DEFINE_GLOBAL, DEFINE_LOCAL}
          \<and> dtype m' = dtypes_bool
          \<longrightarrow> rewrite (spec e) idx = (ret True, []))"
proof -
  have v: "validate_index e i k = (ret True, [])" for i k
    using assms by (simp add: validate_index_def)
  show ?thesis
    using v index_rule_two[of idx b off e] index_rule_three[of idx b off m' e] by simp
qed

text \<open>
  The theorem on an index into a buffer of ten elements by an offset whose value range is
  0 to 10: it is accepted with the override, and rejected without.
\<close>

theorem ignore_oob_accepts_witness:
  "rewrite (spec env_ignore_oob) (ex_index 0 10) = (ret True, [])
   \<and> fst (rewrite (spec env0) (ex_index 0 10)) = ret False"
proof -
  have "IGNORE_OOB env_ignore_oob \<noteq> 0" by (simp add: env_ignore_oob_def)
  from ignore_oob_accepts[OF this, of "ex_index 0 10" None ex_global "ex_offset 0 10"]
  have 1: "rewrite (spec env_ignore_oob) (ex_index 0 10) = (ret True, [])"
    by (simp add: ex_index_def ex_global_def node_def)
  have 2: "fst (rewrite (spec env0) (ex_index 0 10)) = ret False"
    using index_bounds[of env0 "ex_index 0 10" ex_global "ex_offset 0 10" 10]
    by (simp add: ex_index_def ex_global_def ex_offset_def node_def env0_def dedup_def)
  from 1 2 show ?thesis by simp
qed

subsection \<open>Loads and stores from an address\<close>

text \<open>
  C10, as amended. A STORE node whose first source has the value type \<^verbatim>\<open>int64\<close> is
  accepted by the rule set \<^verbatim>\<open>spec\<close> whatever its other sources and its own value type. A
  LOAD node whose first source has the value type \<^verbatim>\<open>int64\<close> is accepted, unless it has
  exactly two sources, the first an INDEX or a CAST, the second neither an IF nor a
  BARRIER and of a value type other than that of the LOAD: the earlier rule of a load
  with an alternative value then rejects it.
\<close>

theorem ptx_load_store:
  assumes "op u = LOAD \<or> op u = STORE" and "src u = s0 # rest" and "dtype s0 = dtypes_int64"
  shows "rewrite (spec e) u =
    (if op u = LOAD \<and> op s0 \<in> {INDEX, CAST}
        \<and> (\<exists>alt. rest = [alt] \<and> op alt \<notin> {IF, BARRIER} \<and> dtype alt \<noteq> dtype u)
     then ret False else ret True, [])"
proof (cases "op u = LOAD")
  case True
  from load64[OF True assms(2,3), of e] True show ?thesis by simp
next
  case False
  with assms(1) have "op u = STORE" by simp
  from store64[OF this assms(2,3), of e] False show ?thesis by simp
qed

text \<open>
  The theorem on a store to an address with four sources, on a load from an address that
  is a sum, with an alternative value of another type, and on the same load from an
  address that is a cast.
\<close>

theorem ptx_load_store_witness:
  "rewrite (spec env0) (node STORE dtypes_float
       [node ADD dtypes_int64 [] ANone, node ADD dtypes_float [] ANone,
        node ADD dtypes_int [] ANone, node ADD dtypes_int [] ANone] ANone)
     = (ret True, [])
   \<and> rewrite (spec env0) (node LOAD dtypes_float
       [node ADD dtypes_int64 [] ANone, node ADD dtypes_int [] ANone] ANone)
     = (ret True, [])
   \<and> rewrite (spec env0) (node LOAD dtypes_float
       [node CAST dtypes_int64 [] ANone, node ADD dtypes_int [] ANone] ANone)
     = (ret False, [])"
  using ptx_load_store [of "node STORE dtypes_float
       [node ADD dtypes_int64 [] ANone, node ADD dtypes_float [] ANone,
        node ADD dtypes_int [] ANone, node ADD dtypes_int [] ANone] ANone"
      "node ADD dtypes_int64 [] ANone"
      "[node ADD dtypes_float [] ANone, node ADD dtypes_int [] ANone, node ADD dtypes_int [] ANone]" env0]
    ptx_load_store [of "node LOAD dtypes_float
       [node ADD dtypes_int64 [] ANone, node ADD dtypes_int [] ANone] ANone"
      "node ADD dtypes_int64 [] ANone" "[node ADD dtypes_int [] ANone]" env0]
    ptx_load_store [of "node LOAD dtypes_float
       [node CAST dtypes_int64 [] ANone, node ADD dtypes_int [] ANone] ANone"
      "node CAST dtypes_int64 [] ANone" "[node ADD dtypes_int [] ANone]" env0]
  by (simp add: node_def dtypes_int_def dtypes_float_def)

text \<open>
  A load whose first source is a cast to \<^verbatim>\<open>int64\<close> and whose second source is of type
  \<^verbatim>\<open>int\<close>, the load being of type \<^verbatim>\<open>float\<close>, is rejected.
\<close>

theorem ptx_load_counterexample:
  "op (node LOAD dtypes_float [node CAST dtypes_int64 [] ANone, node ADD dtypes_int [] ANone] ANone) = LOAD
   \<and> dtype (hd (src (node LOAD dtypes_float
        [node CAST dtypes_int64 [] ANone, node ADD dtypes_int [] ANone] ANone))) = dtypes_int64
   \<and> fst (rewrite (spec env0) (node LOAD dtypes_float
        [node CAST dtypes_int64 [] ANone, node ADD dtypes_int [] ANone] ANone)) = ret False"
  using load64 [of "node LOAD dtypes_float [node CAST dtypes_int64 [] ANone, node ADD dtypes_int [] ANone] ANone"
      "node CAST dtypes_int64 [] ANone" "[node ADD dtypes_int [] ANone]" env0]
  by (simp add: node_def dtypes_int_def dtypes_float_def)

end
